theory Spec2Isabelle
  imports Main
begin

section \<open>The lifecycle orchestrator of cmd/mistral/main.go\<close>

text \<open>
  The program is one Go function, \<open>main\<close>, which starts a pool of handlers, a metric
  socket and an HTTP server as goroutines and then supervises them through channels.
  The embedding follows the main goroutine statement by statement. What the other
  goroutines and the operating system do is an input: the result of every call that can
  fail, and the outcome of every \<open>select\<close>, are fields of the record \<open>env\<close>. What main
  does is recorded, in program order, in the \<open>trace\<close> of the state.
\<close>

subsection \<open>Channels, handlers, configuration\<close>

type_synonym chan = nat

record chan_info =
  cap :: nat
  closed :: bool

text \<open>The fields of \<open>mistral.Mistral\<close> that main fills in with channels (lines 116-124).
  \<open>Config\<close> and \<open>Metrics\<close> point to the one configuration and the one registry.\<close>

record handler =
  Num :: nat
  Input :: chan
  Shutdown :: chan
  Death :: chan

text \<open>The two channels of the metric socket that main uses: \<open>ms.Errors\<close>, \<open>ms.Shutdown\<close>.\<close>

record metric_socket =
  ms_Errors :: chan
  ms_Shutdown :: chan

text \<open>The fields of \<open>erebos.Config\<close> that main reads. The queue length is a Go \<open>int\<close>.\<close>

record config =
  Log_Path :: string
  Log_File :: string
  Log_Rotate :: bool
  Misc_InstanceName :: string
  Misc_ProduceMetrics :: bool
  Mistral_HandlerQueueLength :: int
  Mistral_ListenAddress :: string
  Mistral_ListenPort :: string
  Mistral_EndpointPath :: string

datatype process_state = Healthy | Unavailable | ShuttingDown

datatype os_signal = SIGINT | SIGTERM | SIGUSR2

text \<open>A value received from one of the two error channels. The sender of a value on
  \<open>handlerDeath\<close> is kept in the model so that claims can speak about it; main never
  looks at it.\<close>

datatype origin = FromHandler nat | FromHTTPServer | FromSocketProducer

datatype arrival =
    OnErrors string
  | OnDeath origin string

datatype run_event =
    Recv arrival
  | Signal os_signal

datatype goroutine =
    Logrotate chan
  | SocketRun metric_socket
  | HandlerStart handler
  | ListenAndServe string chan

datatype action =
    DisableZKLogger
  | SetLogrusOptions
  | Stderr string
  | ConfFromFile string
  | NewFileWriter string string
  | LogSetOutput
  | LogFatal string
  | LogInfo string
  | LogError string
  | LogWarn string
  | MakeChan chan nat
  | SignalNotify chan "os_signal list"
  | Go goroutine
  | NewPrefixedRegistry string
  | NewRegisteredMeter string
  | NewMetricSocket chan
  | SetDebugFormatter
  | RegisterHandler nat handler
  | RouterPOST string
  | RouterGET string
  | SetShutdown
  | SetUnavailable
  | TimeAfter nat
  | TimerExpired nat
  | Close chan
  | SrvShutdown nat
  | Cancel

datatype outcome = Exit nat | Panic string | Blocked

text \<open>The exit status the operating system sees: a Go panic ends the process with
  status 2, a main goroutine blocked for ever gives none.\<close>

fun exit_status :: "outcome \<Rightarrow> nat option" where
  "exit_status (Exit n) = Some n"
| "exit_status (Panic m) = Some 2"
| "exit_status Blocked = None"

subsection \<open>The environment of one run\<close>

text \<open>
  The model starts when \<open>flag.Parse\<close> has returned: \<open>cliConfPath\<close> and \<open>versionFlag\<close>
  are the parsed flags, the four build strings are the package variables of line 33.
  \<open>fromFile\<close> is the result of \<open>miConf.FromFile\<close>, \<open>newFileWriter\<close> the error of
  \<open>reopen.NewFileWriter\<close> if any, \<open>numCPU\<close> is \<open>runtime.NumCPU()\<close>.
  \<open>chanSizeLimit\<close> is the largest size for which \<open>make(chan *erebos.Transport, n)\<close>
  gives a channel in this process: the Go runtime refuses a buffer above its allocation
  limit, which depends on the platform and the version of the runtime (with pointers of
  8 bytes and a limit of \<open>2^48\<close> bytes it is a little less than \<open>2^45\<close>).
  \<open>runSelect\<close> lists the cases the \<open>select\<close> of the run loop takes,
  one per iteration; when the list ends no further event arrives. \<open>drainSelect\<close> lists
  the values that arrive on the two error channels after the channels are closed, each
  with the time in nanoseconds between the start of the \<open>select\<close> that could receive it
  and its arrival; they are finitely many, and when the list ends no further value
  arrives. \<open>srvShutdown\<close> is the error of \<open>srv.Shutdown\<close> if any.
\<close>

record env =
  cliConfPath :: string
  versionFlag :: bool
  githash :: string
  shorthash :: string
  builddate :: string
  buildtime :: string
  fromFile :: "string + config"
  newFileWriter :: "string option"
  numCPU :: nat
  chanSizeLimit :: nat
  runSelect :: "run_event list"
  drainSelect :: "(nat \<times> arrival) list"
  srvShutdown :: "string option"

subsection \<open>The state of the process\<close>

text \<open>
  \<open>heap\<close> holds the channels made so far, \<open>pstate\<close> is the health flag of package
  \<open>mistral\<close>, \<open>Handlers\<close> is \<open>mistral.Handlers\<close>, \<open>fault\<close> and \<open>shutdown\<close> are the two
  locals of lines 155-156, \<open>waited\<close> is the time in nanoseconds main has spent in the
  waits of the shutdown sequence.
\<close>

record state =
  heap :: "chan \<rightharpoonup> chan_info"
  next_chan :: chan
  pstate :: process_state
  Handlers :: "nat \<rightharpoonup> handler"
  fault :: bool
  shutdown :: bool
  waited :: nat
  trace :: "action list"

definition initial_state :: state where
  "initial_state =
     \<lparr>heap = Map.empty, next_chan = 0, pstate = Healthy, Handlers = Map.empty,
      fault = False, shutdown = False, waited = 0, trace = []\<rparr>"

definition emit :: "action \<Rightarrow> state \<Rightarrow> state" where
  "emit a st = st\<lparr>trace := trace st @ [a]\<rparr>"

definition second :: nat where
  "second = 1000000000"

definition millisecond :: nat where
  "millisecond = 1000000"

text \<open>\<open>make(chan T, k)\<close> with a capacity that is known not to be negative.\<close>

definition make_chan :: "nat \<Rightarrow> state \<Rightarrow> chan \<times> state" where
  "make_chan k st =
     (next_chan st,
      emit (MakeChan (next_chan st) k)
        (st\<lparr>heap := (heap st)(next_chan st \<mapsto> \<lparr>cap = k, closed = False\<rparr>),
            next_chan := Suc (next_chan st)\<rparr>))"

text \<open>\<open>make(chan T, n)\<close> with an \<open>int\<close> read from the configuration: Go panics with
  the same message when \<open>n\<close> is negative and when \<open>n\<close> is above the limit \<open>lim\<close> of the
  runtime.\<close>

definition make_chan_sized ::
  "nat \<Rightarrow> int \<Rightarrow> state \<Rightarrow> (outcome \<times> state) + (chan \<times> state)" where
  "make_chan_sized lim n st =
     (if n < 0 \<or> int lim < n then Inl (Panic ''makechan: size out of range'', st)
      else Inr (make_chan (nat n) st))"

text \<open>\<open>close(ch)\<close>: Go panics on a nil channel and on a channel that is closed already.\<close>

definition close_chan :: "chan \<Rightarrow> state \<Rightarrow> (outcome \<times> state) + state" where
  "close_chan ch st =
     (case heap st ch of
        None \<Rightarrow> Inl (Panic ''close of nil channel'', st)
      | Some ci \<Rightarrow>
          if closed ci then Inl (Panic ''close of closed channel'', st)
          else Inr (emit (Close ch) (st\<lparr>heap := (heap st)(ch \<mapsto> ci\<lparr>closed := True\<rparr>)\<rparr>)))"

text \<open>\<open><-time.After(d)\<close>: a timer is made and main waits until it expires.\<close>

definition time_After :: "nat \<Rightarrow> state \<Rightarrow> state" where
  "time_After d st = emit (TimerExpired d) (emit (TimeAfter d) (st\<lparr>waited := waited st + d\<rparr>))"

text \<open>Modelled from the spec: \<open>mistral.SetShutdown\<close> and \<open>mistral.SetUnavailable\<close> are
  in package internal/mistral, whose source is not part of the files at hand. The spec
  gives the health flag three values, starting at \<open>Healthy\<close>, and says that each setter
  performs a one-way, idempotent, write-once transition with no way back to \<open>Healthy\<close>.\<close>

definition setShuttingDown :: "process_state \<Rightarrow> process_state" where
  "setShuttingDown p = (if p = Healthy then ShuttingDown else p)"

definition setUnavailable :: "process_state \<Rightarrow> process_state" where
  "setUnavailable p = (if p = Healthy then Unavailable else p)"

definition isHealthy :: "process_state \<Rightarrow> bool" where
  "isHealthy p = (p = Healthy)"

definition mistral_SetShutdown :: "state \<Rightarrow> state" where
  "mistral_SetShutdown st = emit SetShutdown (st\<lparr>pstate := setShuttingDown (pstate st)\<rparr>)"

definition mistral_SetUnavailable :: "state \<Rightarrow> state" where
  "mistral_SetUnavailable st = emit SetUnavailable (st\<lparr>pstate := setUnavailable (pstate st)\<rparr>)"

subsection \<open>Formatting\<close>

text \<open>The verb \<open>%d\<close> of line 127 on a loop index, which is never negative.\<close>

fun decimal :: "nat \<Rightarrow> string" where
  "decimal n =
     (if n < 10 then [''0123456789'' ! n]
      else decimal (n div 10) @ [''0123456789'' ! (n mod 10)])"

declare decimal.simps [simp del]

subsection \<open>func init and the version banner\<close>

definition init :: "state \<Rightarrow> state" where
  "init st = emit SetLogrusOptions (emit DisableZKLogger st)"

definition print_version :: "env \<Rightarrow> state \<Rightarrow> state" where
  "print_version e st =
     emit (Stderr (''Timestamp: '' @ buildtime e))
       (emit (Stderr (''Git Hash : '' @ githash e))
         (emit (Stderr (''Version  : '' @ builddate e @ ''-'' @ shorthash e))
           (emit (Stderr ''Mistral Metric API'') st)))"

subsection \<open>Startup, lines 63-152\<close>

definition read_config :: "env \<Rightarrow> state \<Rightarrow> (outcome \<times> state) + (config \<times> state)" where
  "read_config e st =
     (let st1 = emit (ConfFromFile (cliConfPath e)) st in
      case fromFile e of
        Inl err \<Rightarrow> Inl (Exit 1, emit (LogFatal (''Could not open configuration: '' @ err)) st1)
      | Inr miConf \<Rightarrow> Inr (miConf, st1))"

definition setup_logfile :: "env \<Rightarrow> config \<Rightarrow> state \<Rightarrow> (outcome \<times> state) + state" where
  "setup_logfile e miConf st =
     (let st1 = emit (NewFileWriter (Log_Path miConf) (Log_File miConf)) st in
      case newFileWriter e of
        Some err \<Rightarrow> Inl (Exit 1, emit (LogFatal (''Unable to open logfile: '' @ err)) st1)
      | None \<Rightarrow> Inr (emit (LogInfo ''Starting MISTRAL...'') (emit LogSetOutput st1)))"

definition setup_logrotate :: "config \<Rightarrow> state \<Rightarrow> state" where
  "setup_logrotate miConf st =
     (if Log_Rotate miConf then
        (let (sigChanLogRotate, st1) = make_chan 1 st;
             st2 = emit (SignalNotify sigChanLogRotate [SIGUSR2]) st1
         in emit (Go (Logrotate sigChanLogRotate)) st2)
      else st)"

definition setup_signals :: "state \<Rightarrow> chan \<times> state" where
  "setup_signals st =
     (let (c, st1) = make_chan 1 st
      in (c, emit (SignalNotify c [SIGINT, SIGTERM]) st1))"

definition metricPrefix :: "config \<Rightarrow> string" where
  "metricPrefix miConf =
     (if Misc_InstanceName miConf = [] then ''/mistral''
      else ''/mistral/'' @ Misc_InstanceName miConf)"

definition setup_metrics :: "config \<Rightarrow> state \<Rightarrow> state" where
  "setup_metrics miConf st =
     emit (NewRegisteredMeter ''/messages'')
       (emit (NewRegisteredMeter ''/requests'')
         (emit (NewPrefixedRegistry (metricPrefix miConf)) st))"

text \<open>\<open>legacy.NewMetricSocket\<close> belongs to another repository. Main uses two channels of
  its result; they are made here, without a buffer, which main does not depend on.\<close>

definition setup_socket :: "config \<Rightarrow> chan \<Rightarrow> state \<Rightarrow> metric_socket \<times> state" where
  "setup_socket miConf handlerDeath st =
     (let (errs, st1) = make_chan 0 st;
          (shut, st2) = make_chan 0 st1;
          ms = \<lparr>ms_Errors = errs, ms_Shutdown = shut\<rparr>;
          st3 = emit SetDebugFormatter (emit (NewMetricSocket handlerDeath) st2)
      in if Misc_ProduceMetrics miConf
         then (ms, emit (Go (SocketRun ms)) (emit (LogInfo ''Launched metrics producer socket'') st3))
         else (ms, st3))"

text \<open>The body of the loop of lines 115-128: the composite literal makes the two
  channels in the order of its fields, the handler is put into the registry and started.\<close>

definition start_handler ::
  "nat \<Rightarrow> nat \<Rightarrow> config \<Rightarrow> chan \<Rightarrow> state \<Rightarrow> (outcome \<times> state) + state" where
  "start_handler lim i miConf handlerDeath st =
     (case make_chan_sized lim (Mistral_HandlerQueueLength miConf) st of
        Inl halt \<Rightarrow> Inl halt
      | Inr (inp, st1) \<Rightarrow>
          (case make_chan 0 st1 of
             (shut, st2) \<Rightarrow>
               (let h = \<lparr>Num = i, Input = inp, Shutdown = shut, Death = handlerDeath\<rparr>;
                    st3 = emit (RegisterHandler i h) (st2\<lparr>Handlers := (Handlers st2)(i \<mapsto> h)\<rparr>);
                    st4 = emit (Go (HandlerStart h)) st3
                in Inr (emit (LogInfo (''Launched Mistral handler #'' @ decimal i)) st4))))"

text \<open>The loop itself, from index \<open>i\<close> on, with \<open>n\<close> the value of \<open>runtime.NumCPU()\<close>
  and \<open>lim\<close> the limit of the runtime on the size of a channel.\<close>

function start_handlers ::
  "nat \<Rightarrow> nat \<Rightarrow> nat \<Rightarrow> config \<Rightarrow> chan \<Rightarrow> state \<Rightarrow> (outcome \<times> state) + state" where
  "start_handlers lim i n miConf handlerDeath st =
     (if i < n then
        (case start_handler lim i miConf handlerDeath st of
           Inl halt \<Rightarrow> Inl halt
         | Inr st1 \<Rightarrow> start_handlers lim (Suc i) n miConf handlerDeath st1)
      else Inr st)"
  by pat_completeness auto
termination
  by (relation "measure (\<lambda>(lim, i, n, miConf, handlerDeath, st). n - i)") auto

declare start_handlers.simps [simp del]

definition listenHost :: "config \<Rightarrow> string" where
  "listenHost miConf = Mistral_ListenAddress miConf @ '':'' @ Mistral_ListenPort miConf"

definition start_http :: "config \<Rightarrow> chan \<Rightarrow> state \<Rightarrow> state" where
  "start_http miConf handlerDeath st =
     emit (Go (ListenAndServe (listenHost miConf) handlerDeath))
       (emit (RouterGET ''/health'')
         (emit (RouterPOST (Mistral_EndpointPath miConf)) st))"

text \<open>The goroutine of lines 148-152: what it sends, given what \<open>srv.ListenAndServe\<close>
  returned.\<close>

datatype send = Send chan arrival

definition http_goroutine :: "chan \<Rightarrow> string option \<Rightarrow> send list" where
  "http_goroutine handlerDeath res =
     (case res of
        Some err \<Rightarrow> [Send handlerDeath (OnDeath FromHTTPServer err)]
      | None \<Rightarrow> [])"

text \<open>The locals of main that the shutdown sequence uses.\<close>

record locals =
  miConf_of :: config
  c_of :: chan
  handlerDeath_of :: chan
  ms_of :: metric_socket

text \<open>Lines 80-112: the signal channels, the channel \<open>handlerDeath\<close>, the metrics
  registry and the metric socket.\<close>

definition prepare :: "config \<Rightarrow> state \<Rightarrow> locals \<times> state" where
  "prepare miConf st =
     (case setup_signals (setup_logrotate miConf st) of
        (c, st1) \<Rightarrow>
          (case make_chan 0 st1 of
             (handlerDeath, st2) \<Rightarrow>
               (case setup_socket miConf handlerDeath (setup_metrics miConf st2) of
                  (ms, st3) \<Rightarrow>
                    (\<lparr>miConf_of = miConf, c_of = c, handlerDeath_of = handlerDeath, ms_of = ms\<rparr>,
                     st3))))"

definition startup :: "env \<Rightarrow> state \<Rightarrow> (outcome \<times> state) + (locals \<times> state)" where
  "startup e st =
     (case read_config e st of
        Inl halt \<Rightarrow> Inl halt
      | Inr (miConf, st1) \<Rightarrow>
          (case setup_logfile e miConf st1 of
             Inl halt \<Rightarrow> Inl halt
           | Inr st2 \<Rightarrow>
               (case prepare miConf st2 of
                  (l, st3) \<Rightarrow>
                    (case start_handlers (chanSizeLimit e) 0 (numCPU e) miConf (handlerDeath_of l) st3 of
                       Inl halt \<Rightarrow> Inl halt
                     | Inr st4 \<Rightarrow> Inr (l, start_http miConf (handlerDeath_of l) st4)))))"

subsection \<open>The run loop, lines 154-178\<close>

text \<open>The result says whether the loop was left (\<open>break runloop\<close>); it is not left when
  the events end before a signal or a value on \<open>handlerDeath\<close> arrives.\<close>

fun runloop :: "run_event list \<Rightarrow> state \<Rightarrow> bool \<times> state" where
  "runloop [] st = (False, st)"
| "runloop (Recv (OnErrors err) # evs) st =
     runloop evs (emit (LogError (''Socket error: '' @ err)) st)"
| "runloop (Signal s # evs) st =
     (True, (mistral_SetShutdown (emit (LogInfo ''Received shutdown signal'') st))
              \<lparr>shutdown := True\<rparr>)"
| "runloop (Recv (OnDeath who err) # evs) st =
     (True, (mistral_SetUnavailable (emit (LogError (''Handler died: '' @ err)) st))
              \<lparr>fault := True\<rparr>)"

subsection \<open>The shutdown sequence, lines 180-221\<close>

definition grace :: "state \<Rightarrow> state" where
  "grace st = (if shutdown st then time_After (second * 95) st else st)"

text \<open>Modelled from the spec: the methods \<open>ShutdownChannel\<close> and \<open>InputChannel\<close> of a
  handler are in package internal/mistral, whose source is not part of the files at
  hand. The spec calls what main closes through them the private shutdown signal and
  the input queue of the handler, which are the two channels main gave it.\<close>

definition ShutdownChannel :: "handler \<Rightarrow> chan" where
  "ShutdownChannel h = Shutdown h"

definition InputChannel :: "handler \<Rightarrow> chan" where
  "InputChannel h = Input h"

text \<open>The loop of lines 188-191 over the keys that \<open>range\<close> yields. A key without an
  entry gives a nil interface value, and the method call on it panics.\<close>

fun close_handlers :: "nat list \<Rightarrow> state \<Rightarrow> (outcome \<times> state) + state" where
  "close_handlers [] st = Inr st"
| "close_handlers (i # is) st =
     (case Handlers st i of
        None \<Rightarrow> Inl (Panic ''invalid memory address or nil pointer dereference'', st)
      | Some h \<Rightarrow>
          (case close_chan (ShutdownChannel h) st of
             Inl halt \<Rightarrow> Inl halt
           | Inr st1 \<Rightarrow>
               (case close_chan (InputChannel h) st1 of
                  Inl halt \<Rightarrow> Inl halt
                | Inr st2 \<Rightarrow> close_handlers is st2)))"

text \<open>Modelled from the spec: the declaration of \<open>mistral.Handlers\<close> is in package
  internal/mistral, whose source is not part of the files at hand, so the order in which
  \<open>range mistral.Handlers\<close> (line 188) yields the handlers is not given by main. The spec
  identifies the handlers by the indices \<open>0..N-1\<close>, \<open>N\<close> the number of cores, and has
  main go through every handler in index order.\<close>

definition rangeHandlers :: "env \<Rightarrow> nat list" where
  "rangeHandlers e = [0..<numCPU e]"

definition close_all :: "env \<Rightarrow> locals \<Rightarrow> state \<Rightarrow> (outcome \<times> state) + state" where
  "close_all e l st =
     (case close_chan (ms_Shutdown (ms_of l)) st of
        Inl halt \<Rightarrow> Inl halt
      | Inr st1 \<Rightarrow> close_handlers (rangeHandlers e) st1)"

definition log_straggler :: "arrival \<Rightarrow> state \<Rightarrow> state" where
  "log_straggler a st =
     (case a of
        OnErrors err \<Rightarrow> emit (LogError (''Socket error: '' @ err)) st
      | OnDeath who err \<Rightarrow> emit (LogError (''Handler error: '' @ err)) st)"

text \<open>The loop of lines 194-204. Every iteration evaluates \<open>time.After\<close> anew. A value
  that arrives before that timer expires is received and logged; otherwise, and when no
  value arrives any more, the timer case is taken.\<close>

fun drainloop :: "(nat \<times> arrival) list \<Rightarrow> state \<Rightarrow> state" where
  "drainloop [] st =
     emit (TimerExpired (millisecond * 10))
       ((emit (TimeAfter (millisecond * 10)) st)\<lparr>waited := waited st + millisecond * 10\<rparr>)"
| "drainloop ((gap, a) # rest) st =
     (if gap < millisecond * 10 then
        drainloop rest
          (log_straggler a ((emit (TimeAfter (millisecond * 10)) st)\<lparr>waited := waited st + gap\<rparr>))
      else
        emit (TimerExpired (millisecond * 10))
          ((emit (TimeAfter (millisecond * 10)) st)\<lparr>waited := waited st + millisecond * 10\<rparr>))"

definition finish :: "env \<Rightarrow> state \<Rightarrow> outcome \<times> state" where
  "finish e st =
     (let st1 = emit (SrvShutdown (5 * second)) st;
          st2 = (case srvShutdown e of
                   Some err \<Rightarrow> emit (LogWarn (''HTTP shutdown error: '' @ err)) st1
                 | None \<Rightarrow> st1);
          st3 = emit (LogInfo ''MISTRAL shutdown complete'') st2
      in if fault st3 then (Exit 1, st3) else (Exit 0, emit Cancel st3))"

text \<open>Lines 180-221, entered when the run loop has been left.\<close>

definition teardown :: "env \<Rightarrow> locals \<Rightarrow> state \<Rightarrow> outcome \<times> state" where
  "teardown e l st =
     (case close_all e l (grace st) of
        Inl halt \<Rightarrow> halt
      | Inr st1 \<Rightarrow>
          finish e (time_After (millisecond * 10) (drainloop (drainSelect e) st1)))"

text \<open>Lines 154-221: the two locals are set to false, the run loop runs, and main either
  stays in it for ever or goes on to the shutdown sequence.\<close>

definition supervise :: "env \<Rightarrow> locals \<Rightarrow> state \<Rightarrow> outcome \<times> state" where
  "supervise e l st =
     (case runloop (runSelect e) (st\<lparr>fault := False, shutdown := False\<rparr>) of
        (False, st1) \<Rightarrow> (Blocked, st1)
      | (True, st1) \<Rightarrow> teardown e l st1)"

subsection \<open>func main, and the process\<close>

definition main :: "env \<Rightarrow> state \<Rightarrow> outcome \<times> state" where
  "main e st =
     (if versionFlag e then (Exit 0, print_version e st)
      else
        (case startup e st of
           Inl halt \<Rightarrow> halt
         | Inr (l, st1) \<Rightarrow> supervise e l st1))"

text \<open>The Go runtime calls \<open>init\<close> and then \<open>main\<close>.\<close>

definition run :: "env \<Rightarrow> outcome \<times> state" where
  "run e = main e (init initial_state)"

subsection \<open>Reading a trace\<close>

text \<open>The teardown signals are the \<open>close\<close> calls; the transitions of the health flag are
  the two setters.\<close>

fun is_close :: "action \<Rightarrow> bool" where
  "is_close (Close ch) = True"
| "is_close a = False"

fun is_transition :: "action \<Rightarrow> bool" where
  "is_transition SetShutdown = True"
| "is_transition SetUnavailable = True"
| "is_transition a = False"

fun started :: "action \<Rightarrow> handler list" where
  "started (Go (HandlerStart h)) = [h]"
| "started a = []"

definition started_handlers :: "action list \<Rightarrow> handler list" where
  "started_handlers tr = concat (map started tr)"

text \<open>The path that the run loop committed to, read from the two locals.\<close>

datatype path = GracefulShutdown | FaultShutdown

definition committed :: "state \<Rightarrow> path option" where
  "committed st =
     (if shutdown st then Some GracefulShutdown
      else if fault st then Some FaultShutdown
      else None)"

text \<open>\<open>range\<close> over a registry with the keys \<open>0..N-1\<close> yields every key once.\<close>

definition range_ok :: "env \<Rightarrow> bool" where
  "range_ok e = (distinct (rangeHandlers e) \<and> set (rangeHandlers e) = set [0..<numCPU e])"

text \<open>What iteration \<open>i\<close> of the loop makes when the loop is entered with \<open>base\<close> as
  the next channel: used to state what the loop has done.\<close>

definition handler_at :: "chan \<Rightarrow> chan \<Rightarrow> nat \<Rightarrow> handler" where
  "handler_at base d i = \<lparr>Num = i, Input = base + 2 * i, Shutdown = base + 2 * i + 1, Death = d\<rparr>"

definition launch_actions :: "chan \<Rightarrow> chan \<Rightarrow> nat \<Rightarrow> nat \<Rightarrow> action list" where
  "launch_actions base d q i =
     [MakeChan (base + 2 * i) q, MakeChan (base + 2 * i + 1) 0,
      RegisterHandler i (handler_at base d i), Go (HandlerStart (handler_at base d i)),
      LogInfo (''Launched Mistral handler #'' @ decimal i)]"

text \<open>An action of startup and of the run loop before it commits: not a \<open>close\<close>, not
  a transition, not a timer, and not the last log line of main.\<close>

fun calm :: "action \<Rightarrow> bool" where
  "calm (Close ch) = False"
| "calm SetShutdown = False"
| "calm SetUnavailable = False"
| "calm (TimeAfter d) = False"
| "calm (TimerExpired d) = False"
| "calm (SrvShutdown d) = False"
| "calm Cancel = False"
| "calm (LogInfo m) = (m \<noteq> ''MISTRAL shutdown complete'')"
| "calm a = True"

text \<open>The stragglers that the drain loop receives: those that arrive before the timer of
  their iteration expires, up to the first that does not.\<close>

definition received :: "(nat \<times> arrival) list \<Rightarrow> (nat \<times> arrival) list" where
  "received as = takeWhile (\<lambda>(gap, a). gap < millisecond * 10) as"

fun straggler_line :: "arrival \<Rightarrow> action" where
  "straggler_line (OnErrors err) = LogError (''Socket error: '' @ err)"
| "straggler_line (OnDeath who err) = LogError (''Handler error: '' @ err)"

definition drain_actions :: "(nat \<times> arrival) list \<Rightarrow> action list" where
  "drain_actions as =
     concat (map (\<lambda>(gap, a). [TimeAfter (millisecond * 10), straggler_line a]) (received as))
     @ [TimeAfter (millisecond * 10), TimerExpired (millisecond * 10)]"

text \<open>What main does after the drain loop, lines 206-221.\<close>

definition finish_actions :: "env \<Rightarrow> bool \<Rightarrow> action list" where
  "finish_actions e flt =
     [TimeAfter (millisecond * 10), TimerExpired (millisecond * 10), SrvShutdown (5 * second)]
     @ (case srvShutdown e of Some err \<Rightarrow> [LogWarn (''HTTP shutdown error: '' @ err)] | None \<Rightarrow> [])
     @ [LogInfo ''MISTRAL shutdown complete'']
     @ (if flt then [] else [Cancel])"

text \<open>The number of channels that main makes before the channel \<open>c\<close>: one when the log
  file is rotated on a signal.\<close>

definition rotate_chans :: "config \<Rightarrow> nat" where
  "rotate_chans miConf = (if Log_Rotate miConf then 1 else 0)"

text \<open>The locals of main after startup when \<open>b\<close> was the next channel at its start,
  and the first channel that the loop of lines 115-128 makes.\<close>

definition main_locals :: "config \<Rightarrow> chan \<Rightarrow> locals" where
  "main_locals miConf b =
     \<lparr>miConf_of = miConf, c_of = b + rotate_chans miConf,
      handlerDeath_of = b + rotate_chans miConf + 1,
      ms_of = \<lparr>ms_Errors = b + rotate_chans miConf + 2,
               ms_Shutdown = b + rotate_chans miConf + 3\<rparr>\<rparr>"

definition first_handler_chan :: "locals \<Rightarrow> chan" where
  "first_handler_chan l = Suc (ms_Shutdown (ms_of l))"

text \<open>The setter that a path calls, and the wait that follows it, by the value of the
  local \<open>shutdown\<close>.\<close>

definition commit_action :: "bool \<Rightarrow> action" where
  "commit_action sd = (if sd then SetShutdown else SetUnavailable)"

definition grace_actions :: "bool \<Rightarrow> action list" where
  "grace_actions sd = (if sd then [TimeAfter (second * 95), TimerExpired (second * 95)] else [])"

text \<open>The \<open>close\<close> calls of lines 187-191 when \<open>range\<close> yields the keys \<open>js\<close> in this
  order and the registry is \<open>reg\<close>.\<close>

definition handler_closes :: "(nat \<rightharpoonup> handler) \<Rightarrow> nat \<Rightarrow> action list" where
  "handler_closes reg j =
     (case reg j of Some h \<Rightarrow> [Close (Shutdown h), Close (Input h)] | None \<Rightarrow> [])"

definition drain_closes :: "metric_socket \<Rightarrow> (nat \<rightharpoonup> handler) \<Rightarrow> nat list \<Rightarrow> action list" where
  "drain_closes ms reg js = Close (ms_Shutdown ms) # concat (map (handler_closes reg) js)"

text \<open>Which events of the run loop leave it.\<close>

fun is_commit_trigger :: "run_event \<Rightarrow> bool" where
  "is_commit_trigger (Signal s) = True"
| "is_commit_trigger (Recv (OnDeath who err)) = True"
| "is_commit_trigger (Recv (OnErrors err)) = False"

subsection \<open>Example runs\<close>

text \<open>A configuration and three environments: a run with the version flag, a run on
  two cores that gets a socket error and then SIGTERM, and a run whose HTTP server
  cannot listen. The limit on the size of a channel is the one of a runtime with
  pointers of 8 bytes, an allocation limit of \<open>2^48\<close> bytes and a channel header of 96
  bytes.\<close>

definition cfg_example :: config where
  "cfg_example =
     \<lparr>Log_Path = ''/var/log'', Log_File = ''mistral.log'', Log_Rotate = False,
      Misc_InstanceName = [], Misc_ProduceMetrics = True, Mistral_HandlerQueueLength = 4,
      Mistral_ListenAddress = ''localhost'', Mistral_ListenPort = ''8080'',
      Mistral_EndpointPath = ''/api''\<rparr>"

definition env_graceful :: env where
  "env_graceful =
     \<lparr>cliConfPath = ''mistral.conf'', versionFlag = False, githash = ''0a1b2c3d4e'',
      shorthash = ''0a1b'', builddate = ''2017-06-01'', buildtime = ''12:00:00'',
      fromFile = Inr cfg_example, newFileWriter = None, numCPU = 2,
      chanSizeLimit = 35184372088820,
      runSelect = [Recv (OnErrors ''write timeout''), Signal SIGTERM],
      drainSelect = [(5, OnDeath (FromHandler 0) ''stopped'')],
      srvShutdown = None\<rparr>"

definition env_version :: env where
  "env_version = env_graceful\<lparr>versionFlag := True\<rparr>"

text \<open>The run on two cores again, with a configured queue length of \<open>2^62\<close>.\<close>

definition cfg_oversized :: config where
  "cfg_oversized = cfg_example\<lparr>Mistral_HandlerQueueLength := 4611686018427387904\<rparr>"

definition env_oversized :: env where
  "env_oversized = env_graceful\<lparr>fromFile := Inr cfg_oversized\<rparr>"

definition env_fault :: env where
  "env_fault =
     env_graceful\<lparr>runSelect := [Recv (OnDeath FromHTTPServer ''address already in use'')],
       drainSelect := []\<rparr>"

section \<open>Properties\<close>

subsection \<open>Basic facts about the state\<close>

declare ShutdownChannel_def [simp] InputChannel_def [simp]

lemma emit_fields [simp]:
  "heap (emit a st) = heap st"
  "next_chan (emit a st) = next_chan st"
  "pstate (emit a st) = pstate st"
  "Handlers (emit a st) = Handlers st"
  "fault (emit a st) = fault st"
  "shutdown (emit a st) = shutdown st"
  "waited (emit a st) = waited st"
  "trace (emit a st) = trace st @ [a]"
  by (simp_all add: emit_def)

subsection \<open>Startup\<close>

lemma start_handler_ok:
  assumes "0 \<le> Mistral_HandlerQueueLength miConf \<and> Mistral_HandlerQueueLength miConf \<le> int lim"
  shows "\<exists>st'. start_handler lim i miConf d st = Inr st'
    \<and> next_chan st' = next_chan st + 2
    \<and> heap st' = (heap st)(next_chan st \<mapsto> \<lparr>cap = nat (Mistral_HandlerQueueLength miConf), closed = False\<rparr>,
                          Suc (next_chan st) \<mapsto> \<lparr>cap = 0, closed = False\<rparr>)
    \<and> Handlers st' = (Handlers st)(i \<mapsto> \<lparr>Num = i, Input = next_chan st, Shutdown = Suc (next_chan st), Death = d\<rparr>)
    \<and> pstate st' = pstate st \<and> fault st' = fault st \<and> shutdown st' = shutdown st \<and> waited st' = waited st
    \<and> trace st' = trace st @
         [MakeChan (next_chan st) (nat (Mistral_HandlerQueueLength miConf)),
          MakeChan (Suc (next_chan st)) 0,
          RegisterHandler i \<lparr>Num = i, Input = next_chan st, Shutdown = Suc (next_chan st), Death = d\<rparr>,
          Go (HandlerStart \<lparr>Num = i, Input = next_chan st, Shutdown = Suc (next_chan st), Death = d\<rparr>),
          LogInfo (''Launched Mistral handler #'' @ decimal i)]"
  using assms by (simp add: start_handler_def make_chan_sized_def make_chan_def Let_def)

lemma start_handlers_ok:
  assumes "(0 \<le> Mistral_HandlerQueueLength miConf \<and> Mistral_HandlerQueueLength miConf \<le> int lim)
      \<or> i = n"
    and "next_chan st = base + 2 * i" and "i \<le> n"
  shows "\<exists>st'. start_handlers lim i n miConf d st = Inr st'
    \<and> next_chan st' = base + 2 * n
    \<and> (\<forall>j. i \<le> j \<and> j < n \<longrightarrow>
          heap st' (base + 2 * j) = Some \<lparr>cap = nat (Mistral_HandlerQueueLength miConf), closed = False\<rparr>
        \<and> heap st' (base + 2 * j + 1) = Some \<lparr>cap = 0, closed = False\<rparr>)
    \<and> (\<forall>ch. ch < base + 2 * i \<longrightarrow> heap st' ch = heap st ch)
    \<and> (\<forall>j. Handlers st' j = (if i \<le> j \<and> j < n then Some (handler_at base d j) else Handlers st j))
    \<and> pstate st' = pstate st \<and> fault st' = fault st \<and> shutdown st' = shutdown st \<and> waited st' = waited st
    \<and> trace st' = trace st @ concat (map (launch_actions base d (nat (Mistral_HandlerQueueLength miConf))) [i..<n])"
  using assms
proof (induction lim i n miConf d st rule: start_handlers.induct)
  case (1 lim i n miConf d st)
  show ?case
  proof (cases "i < n")
    case False
    with "1.prems" have "i = n" by simp
    then show ?thesis using "1.prems"(2) by (auto simp: start_handlers.simps)
  next
    case True
    from True "1.prems"(1)
    have q: "0 \<le> Mistral_HandlerQueueLength miConf \<and> Mistral_HandlerQueueLength miConf \<le> int lim" by simp
    from start_handler_ok [OF q, of i d st]
    obtain st1 where b: "start_handler lim i miConf d st = Inr st1"
      and n1: "next_chan st1 = next_chan st + 2"
      and h1: "heap st1 = (heap st)(next_chan st \<mapsto> \<lparr>cap = nat (Mistral_HandlerQueueLength miConf), closed = False\<rparr>,
                          Suc (next_chan st) \<mapsto> \<lparr>cap = 0, closed = False\<rparr>)"
      and r1: "Handlers st1 = (Handlers st)(i \<mapsto> \<lparr>Num = i, Input = next_chan st, Shutdown = Suc (next_chan st), Death = d\<rparr>)"
      and f1: "pstate st1 = pstate st" "fault st1 = fault st" "shutdown st1 = shutdown st" "waited st1 = waited st"
      and t1: "trace st1 = trace st @
         [MakeChan (next_chan st) (nat (Mistral_HandlerQueueLength miConf)),
          MakeChan (Suc (next_chan st)) 0,
          RegisterHandler i \<lparr>Num = i, Input = next_chan st, Shutdown = Suc (next_chan st), Death = d\<rparr>,
          Go (HandlerStart \<lparr>Num = i, Input = next_chan st, Shutdown = Suc (next_chan st), Death = d\<rparr>),
          LogInfo (''Launched Mistral handler #'' @ decimal i)]"
      by blast
    have nx: "next_chan st1 = base + 2 * Suc i" using n1 "1.prems"(2) by simp
    from "1.IH" [OF True b _ nx] True q
    obtain st' where s: "start_handlers lim (Suc i) n miConf d st1 = Inr st'"
      and n2: "next_chan st' = base + 2 * n"
      and h2: "\<forall>j. Suc i \<le> j \<and> j < n \<longrightarrow>
          heap st' (base + 2 * j) = Some \<lparr>cap = nat (Mistral_HandlerQueueLength miConf), closed = False\<rparr>
        \<and> heap st' (base + 2 * j + 1) = Some \<lparr>cap = 0, closed = False\<rparr>"
      and h3: "\<forall>ch. ch < base + 2 * Suc i \<longrightarrow> heap st' ch = heap st1 ch"
      and r2: "\<forall>j. Handlers st' j = (if Suc i \<le> j \<and> j < n then Some (handler_at base d j) else Handlers st1 j)"
      and f2: "pstate st' = pstate st1" "fault st' = fault st1" "shutdown st' = shutdown st1" "waited st' = waited st1"
      and t2: "trace st' = trace st1 @ concat (map (launch_actions base d (nat (Mistral_HandlerQueueLength miConf))) [Suc i..<n])"
      by auto
    have e: "start_handlers lim i n miConf d st = Inr st'"
      using True b s by (subst start_handlers.simps) simp
    have hp: "\<forall>j. i \<le> j \<and> j < n \<longrightarrow>
          heap st' (base + 2 * j) = Some \<lparr>cap = nat (Mistral_HandlerQueueLength miConf), closed = False\<rparr>
        \<and> heap st' (base + 2 * j + 1) = Some \<lparr>cap = 0, closed = False\<rparr>"
    proof (intro allI impI)
      fix j assume j: "i \<le> j \<and> j < n"
      show "heap st' (base + 2 * j) = Some \<lparr>cap = nat (Mistral_HandlerQueueLength miConf), closed = False\<rparr>
        \<and> heap st' (base + 2 * j + 1) = Some \<lparr>cap = 0, closed = False\<rparr>"
      proof (cases "j = i")
        case True
        then show ?thesis using h3 h1 "1.prems"(2) by simp
      next
        case False
        with j have "Suc i \<le> j \<and> j < n" by simp
        with h2 show ?thesis by blast
      qed
    qed
    have hq: "\<forall>ch. ch < base + 2 * i \<longrightarrow> heap st' ch = heap st ch"
      using h3 h1 "1.prems"(2) by simp
    have rp: "\<forall>j. Handlers st' j = (if i \<le> j \<and> j < n then Some (handler_at base d j) else Handlers st j)"
      using r2 r1 True "1.prems"(2) by (auto simp: handler_at_def)
    have tp: "trace st' = trace st @ concat (map (launch_actions base d (nat (Mistral_HandlerQueueLength miConf))) [i..<n])"
      using t2 t1 True "1.prems"(2) by (simp add: upt_conv_Cons launch_actions_def handler_at_def)
    show ?thesis using e n2 hp hq rp tp f1 f2 by simp
  qed
qed

lemma start_handlers_total:
  assumes "0 \<le> Mistral_HandlerQueueLength miConf \<and> Mistral_HandlerQueueLength miConf \<le> int lim"
  shows "\<exists>st'. start_handlers lim i n miConf d st = Inr st'"
  using assms
proof (induction lim i n miConf d st rule: start_handlers.induct)
  case (1 lim i n miConf d st)
  show ?case
  proof (cases "i < n")
    case False
    then show ?thesis by (simp add: start_handlers.simps)
  next
    case True
    from start_handler_ok [OF "1.prems", of i d st]
    obtain st1 where b: "start_handler lim i miConf d st = Inr st1" by blast
    from "1.IH" [OF True b "1.prems"] obtain st' where
      "start_handlers lim (Suc i) n miConf d st1 = Inr st'" by blast
    with True b show ?thesis by (subst start_handlers.simps) simp
  qed
qed

lemma start_handlers_fail:
  assumes "start_handlers lim i n miConf d st = Inl (oc, st')"
  shows "st' = st \<and> oc = Panic ''makechan: size out of range''"
proof (cases "0 \<le> Mistral_HandlerQueueLength miConf \<and> Mistral_HandlerQueueLength miConf \<le> int lim")
  case True
  from start_handlers_total [OF True, of i n d st] assms show ?thesis by auto
next
  case False
  show ?thesis
  proof (cases "i < n")
    case True
    with False assms show ?thesis
      by (auto simp: start_handlers.simps start_handler_def make_chan_sized_def
          split: if_splits)
  next
    case False
    with assms show ?thesis by (simp add: start_handlers.simps)
  qed
qed

lemma prepare_ok:
  "\<exists>st' xs. prepare miConf st =
       (\<lparr>miConf_of = miConf, c_of = next_chan st + rotate_chans miConf,
         handlerDeath_of = next_chan st + rotate_chans miConf + 1,
         ms_of = \<lparr>ms_Errors = next_chan st + rotate_chans miConf + 2,
                  ms_Shutdown = next_chan st + rotate_chans miConf + 3\<rparr>\<rparr>, st')
     \<and> next_chan st' = next_chan st + rotate_chans miConf + 4
     \<and> heap st' (next_chan st + rotate_chans miConf + 3) = Some \<lparr>cap = 0, closed = False\<rparr>
     \<and> Handlers st' = Handlers st
     \<and> pstate st' = pstate st \<and> fault st' = fault st \<and> shutdown st' = shutdown st
     \<and> waited st' = waited st
     \<and> trace st' = trace st @ xs \<and> list_all calm xs \<and> started_handlers xs = []"
  by (auto simp: prepare_def setup_signals_def setup_logrotate_def make_chan_def setup_metrics_def
      setup_socket_def started_handlers_def rotate_chans_def Let_def)

lemma calm_launch_actions: "list_all calm (concat (map (launch_actions base d q) js))"
  by (induction js) (simp_all add: launch_actions_def)

lemma start_handlers_neg:
  assumes "Mistral_HandlerQueueLength miConf < 0 \<or> int lim < Mistral_HandlerQueueLength miConf"
    and "i < n"
  shows "start_handlers lim i n miConf d st = Inl (Panic ''makechan: size out of range'', st)"
  using assms by (auto simp: start_handlers.simps start_handler_def make_chan_sized_def)

lemma startup_ok:
  assumes cf: "fromFile e = Inr miConf" and lf: "newFileWriter e = None"
    and q: "(0 \<le> Mistral_HandlerQueueLength miConf
          \<and> Mistral_HandlerQueueLength miConf \<le> int (chanSizeLimit e)) \<or> numCPU e = 0"
  shows "\<exists>st' xs ys. startup e st = Inr (main_locals miConf (next_chan st), st')
    \<and> trace st' = trace st @ xs
         @ concat (map (launch_actions (first_handler_chan (main_locals miConf (next_chan st)))
                          (handlerDeath_of (main_locals miConf (next_chan st)))
                          (nat (Mistral_HandlerQueueLength miConf))) [0..<numCPU e])
         @ ys
    \<and> list_all calm xs \<and> started_handlers xs = [] \<and> list_all calm ys \<and> started_handlers ys = []
    \<and> heap st' (ms_Shutdown (ms_of (main_locals miConf (next_chan st)))) = Some \<lparr>cap = 0, closed = False\<rparr>
    \<and> (\<forall>j. j < numCPU e \<longrightarrow>
          heap st' (first_handler_chan (main_locals miConf (next_chan st)) + 2 * j)
            = Some \<lparr>cap = nat (Mistral_HandlerQueueLength miConf), closed = False\<rparr>
        \<and> heap st' (first_handler_chan (main_locals miConf (next_chan st)) + 2 * j + 1)
            = Some \<lparr>cap = 0, closed = False\<rparr>)
    \<and> (\<forall>j. Handlers st' j =
          (if j < numCPU e
           then Some (handler_at (first_handler_chan (main_locals miConf (next_chan st)))
                        (handlerDeath_of (main_locals miConf (next_chan st))) j)
           else Handlers st j))
    \<and> pstate st' = pstate st \<and> fault st' = fault st \<and> shutdown st' = shutdown st
    \<and> waited st' = waited st"
proof -
  define l where "l = main_locals miConf (next_chan st)"
  define st1 where "st1 = emit (ConfFromFile (cliConfPath e)) st"
  define st2 where "st2 = emit (LogInfo ''Starting MISTRAL...'') (emit LogSetOutput
       (emit (NewFileWriter (Log_Path miConf) (Log_File miConf)) st1))"
  have rc: "read_config e st = Inr (miConf, st1)"
    using cf by (simp add: read_config_def st1_def)
  have sl: "setup_logfile e miConf st1 = Inr st2"
    using lf by (simp add: setup_logfile_def st2_def)
  have n2: "next_chan st2 = next_chan st" by (simp add: st2_def st1_def)
  from prepare_ok [of miConf st2] obtain st3 xs where
    p: "prepare miConf st2 = (l, st3)"
    and n3: "next_chan st3 = next_chan st + rotate_chans miConf + 4"
    and h3: "heap st3 (next_chan st + rotate_chans miConf + 3) = Some \<lparr>cap = 0, closed = False\<rparr>"
    and r3: "Handlers st3 = Handlers st2"
    and f3: "pstate st3 = pstate st2" "fault st3 = fault st2" "shutdown st3 = shutdown st2"
      "waited st3 = waited st2"
    and t3: "trace st3 = trace st2 @ xs" and c3: "list_all calm xs" "started_handlers xs = []"
    unfolding l_def main_locals_def n2 by blast
  have b: "next_chan st3 = first_handler_chan l + 2 * 0"
    using n3 by (simp add: first_handler_chan_def l_def main_locals_def)
  from start_handlers_ok [where n = "numCPU e" and miConf = miConf and d = "handlerDeath_of l"
      and lim = "chanSizeLimit e", OF _ b] q
  obtain st4 where
    s: "start_handlers (chanSizeLimit e) 0 (numCPU e) miConf (handlerDeath_of l) st3 = Inr st4"
    and h4: "\<forall>j. 0 \<le> j \<and> j < numCPU e \<longrightarrow>
          heap st4 (first_handler_chan l + 2 * j)
            = Some \<lparr>cap = nat (Mistral_HandlerQueueLength miConf), closed = False\<rparr>
        \<and> heap st4 (first_handler_chan l + 2 * j + 1) = Some \<lparr>cap = 0, closed = False\<rparr>"
    and k4: "\<forall>ch. ch < first_handler_chan l + 2 * 0 \<longrightarrow> heap st4 ch = heap st3 ch"
    and r4: "\<forall>j. Handlers st4 j =
          (if 0 \<le> j \<and> j < numCPU e then Some (handler_at (first_handler_chan l) (handlerDeath_of l) j)
           else Handlers st3 j)"
    and f4: "pstate st4 = pstate st3" "fault st4 = fault st3" "shutdown st4 = shutdown st3"
      "waited st4 = waited st3"
    and t4: "trace st4 = trace st3 @ concat (map (launch_actions (first_handler_chan l)
               (handlerDeath_of l) (nat (Mistral_HandlerQueueLength miConf))) [0..<numCPU e])"
    by (auto simp del: add_0_iff mult_0_right)
  define st5 where "st5 = start_http miConf (handlerDeath_of l) st4"
  have su: "startup e st = Inr (l, st5)"
    by (simp add: startup_def rc sl p s st5_def)
  define xs' where "xs' = [ConfFromFile (cliConfPath e),
      NewFileWriter (Log_Path miConf) (Log_File miConf), LogSetOutput,
      LogInfo ''Starting MISTRAL...''] @ xs"
  define ys where "ys = [RouterPOST (Mistral_EndpointPath miConf), RouterGET ''/health'',
      Go (ListenAndServe (listenHost miConf) (handlerDeath_of l))]"
  have t5: "trace st5 = trace st @ xs' @ concat (map (launch_actions (first_handler_chan l)
               (handlerDeath_of l) (nat (Mistral_HandlerQueueLength miConf))) [0..<numCPU e]) @ ys"
    by (simp add: st5_def start_http_def t4 t3 st2_def st1_def xs'_def ys_def)
  have cx: "list_all calm xs'" "started_handlers xs' = []"
    using c3 by (simp_all add: xs'_def started_handlers_def)
  have cy: "list_all calm ys" "started_handlers ys = []"
    by (simp_all add: ys_def started_handlers_def)
  have h5: "heap st5 (ms_Shutdown (ms_of l)) = Some \<lparr>cap = 0, closed = False\<rparr>"
    using k4 h3 by (simp add: st5_def start_http_def l_def main_locals_def first_handler_chan_def)
  have h5': "\<forall>j. j < numCPU e \<longrightarrow>
          heap st5 (first_handler_chan l + 2 * j)
            = Some \<lparr>cap = nat (Mistral_HandlerQueueLength miConf), closed = False\<rparr>
        \<and> heap st5 (first_handler_chan l + 2 * j + 1) = Some \<lparr>cap = 0, closed = False\<rparr>"
    using h4 by (simp add: st5_def start_http_def)
  have r5: "\<forall>j. Handlers st5 j =
          (if j < numCPU e then Some (handler_at (first_handler_chan l) (handlerDeath_of l) j)
           else Handlers st j)"
    using r4 r3 by (simp add: st5_def start_http_def st2_def st1_def)
  have f5: "pstate st5 = pstate st" "fault st5 = fault st" "shutdown st5 = shutdown st"
      "waited st5 = waited st"
    using f4 f3 by (simp_all add: st5_def start_http_def st2_def st1_def)
  show ?thesis
    unfolding l_def [symmetric]
    using su t5 cx cy h5 h5' r5 f5 by blast
qed

lemma startup_Inr:
  assumes "startup e st = Inr (l, st')"
  shows "\<exists>miConf. fromFile e = Inr miConf \<and> newFileWriter e = None
    \<and> ((0 \<le> Mistral_HandlerQueueLength miConf
          \<and> Mistral_HandlerQueueLength miConf \<le> int (chanSizeLimit e)) \<or> numCPU e = 0)"
proof (cases "fromFile e")
  case (Inl err)
  with assms show ?thesis by (simp add: startup_def read_config_def)
next
  case (Inr miConf)
  show ?thesis
  proof (cases "newFileWriter e")
    case (Some err)
    with Inr assms show ?thesis by (simp add: startup_def read_config_def setup_logfile_def)
  next
    case None
    show ?thesis
    proof (cases "(0 \<le> Mistral_HandlerQueueLength miConf
          \<and> Mistral_HandlerQueueLength miConf \<le> int (chanSizeLimit e)) \<or> numCPU e = 0")
      case True
      with Inr None show ?thesis by simp
    next
      case False
      then have "Mistral_HandlerQueueLength miConf < 0
          \<or> int (chanSizeLimit e) < Mistral_HandlerQueueLength miConf" "0 < numCPU e" by auto
      from start_handlers_neg [OF this] assms Inr None show ?thesis
        by (simp add: startup_def read_config_def setup_logfile_def split: prod.splits)
    qed
  qed
qed

lemma startup_Inl:
  assumes "startup e st = Inl (oc, st')"
  shows "(oc = Exit 1 \<or> oc = Panic ''makechan: size out of range'')
    \<and> pstate st' = pstate st \<and> fault st' = fault st \<and> shutdown st' = shutdown st
    \<and> waited st' = waited st
    \<and> (\<exists>xs. trace st' = trace st @ xs \<and> list_all calm xs)"
proof (cases "fromFile e")
  case (Inl err)
  with assms show ?thesis by (auto simp: startup_def read_config_def)
next
  case (Inr miConf)
  show ?thesis
  proof (cases "newFileWriter e")
    case (Some err)
    with Inr assms show ?thesis by (auto simp: startup_def read_config_def setup_logfile_def)
  next
    case None
    define st2 where "st2 = emit (LogInfo ''Starting MISTRAL...'') (emit LogSetOutput
       (emit (NewFileWriter (Log_Path miConf) (Log_File miConf))
          (emit (ConfFromFile (cliConfPath e)) st)))"
    from prepare_ok [of miConf st2] obtain l st3 xs where
      p: "prepare miConf st2 = (l, st3)"
      and f3: "pstate st3 = pstate st2" "fault st3 = fault st2" "shutdown st3 = shutdown st2"
        "waited st3 = waited st2"
      and t3: "trace st3 = trace st2 @ xs" and c3: "list_all calm xs"
      by blast
    from assms Inr None p
    have "start_handlers (chanSizeLimit e) 0 (numCPU e) miConf (handlerDeath_of l) st3
        = Inl (oc, st')"
      by (simp add: startup_def read_config_def setup_logfile_def st2_def split: sum.splits)
    from start_handlers_fail [OF this] f3 t3 c3 show ?thesis
      by (simp add: st2_def)
  qed
qed

subsection \<open>The run loop\<close>

lemma runloop_frame:
  "runloop evs st = (b, st') \<Longrightarrow>
     heap st' = heap st \<and> Handlers st' = Handlers st \<and> next_chan st' = next_chan st
     \<and> waited st' = waited st"
  by (induction evs st rule: runloop.induct)
     (auto simp: mistral_SetShutdown_def mistral_SetUnavailable_def)

lemma runloop_stays:
  "runloop evs st = (False, st') \<Longrightarrow>
     pstate st' = pstate st \<and> fault st' = fault st \<and> shutdown st' = shutdown st
     \<and> (\<exists>xs. trace st' = trace st @ xs \<and> list_all calm xs)"
  by (induction evs st rule: runloop.induct) auto

lemma runloop_leaves:
  "runloop evs st = (True, st') \<Longrightarrow>
     \<exists>xs. list_all calm xs \<and>
       (trace st' = trace st @ xs @ [SetShutdown] \<and> shutdown st' \<and> fault st' = fault st
          \<and> pstate st' = setShuttingDown (pstate st)
        \<or> trace st' = trace st @ xs @ [SetUnavailable] \<and> fault st' \<and> shutdown st' = shutdown st
          \<and> pstate st' = setUnavailable (pstate st))"
proof (induction evs st rule: runloop.induct)
  case (1 st)
  then show ?case by simp
next
  case (2 err evs st)
  then obtain xs where "list_all calm xs"
    "trace st' = trace st @ (LogError (''Socket error: '' @ err) # xs) @ [SetShutdown] \<and> shutdown st'
        \<and> fault st' = fault st \<and> pstate st' = setShuttingDown (pstate st)
     \<or> trace st' = trace st @ (LogError (''Socket error: '' @ err) # xs) @ [SetUnavailable] \<and> fault st'
        \<and> shutdown st' = shutdown st \<and> pstate st' = setUnavailable (pstate st)"
    by auto
  then show ?case by (intro exI [of _ "LogError (''Socket error: '' @ err) # xs"]) simp
next
  case (3 s evs st)
  then show ?case
    by (intro exI [of _ "[LogInfo ''Received shutdown signal'']"])
       (auto simp: mistral_SetShutdown_def)
next
  case (4 who err evs st)
  then show ?case
    by (intro exI [of _ "[LogError (''Handler died: '' @ err)]"])
       (auto simp: mistral_SetUnavailable_def)
qed

subsection \<open>Closing the channels\<close>

lemma close_chan_open:
  assumes "heap st ch = Some \<lparr>cap = k, closed = False\<rparr>"
  shows "close_chan ch st = Inr (emit (Close ch) (st\<lparr>heap := (heap st)(ch \<mapsto> \<lparr>cap = k, closed = True\<rparr>)\<rparr>))"
  using assms by (simp add: close_chan_def)

lemma close_chan_Inl:
  "close_chan ch st = Inl (oc, st') \<Longrightarrow> st' = st \<and> (\<exists>m. oc = Panic m)"
  by (auto simp: close_chan_def split: option.splits if_splits)

lemma close_chan_Inr:
  "close_chan ch st = Inr st' \<Longrightarrow>
     trace st' = trace st @ [Close ch] \<and> pstate st' = pstate st \<and> fault st' = fault st
     \<and> shutdown st' = shutdown st \<and> waited st' = waited st \<and> Handlers st' = Handlers st"
  by (auto simp: close_chan_def split: option.splits if_splits)

lemma close_handlers_any:
  "\<exists>st' cs. (close_handlers js st = Inr st' \<or> (\<exists>m. close_handlers js st = Inl (Panic m, st')))
        \<and> trace st' = trace st @ cs \<and> list_all is_close cs
        \<and> pstate st' = pstate st \<and> fault st' = fault st
        \<and> shutdown st' = shutdown st \<and> waited st' = waited st"
proof (induction js arbitrary: st)
  case Nil
  show ?case by (intro exI [of _ st] exI [of _ "[]"]) simp
next
  case (Cons i js)
  show ?case
  proof (cases "Handlers st i")
    case None
    then have "close_handlers (i # js) st
        = Inl (Panic ''invalid memory address or nil pointer dereference'', st)" by simp
    then show ?thesis by (intro exI [of _ st] exI [of _ "[]"]) simp
  next
    case (Some h)
    show ?thesis
    proof (cases "close_chan (Shutdown h) st")
      case (Inl halt)
      obtain oc sx where hl: "halt = (oc, sx)" by (cases halt)
      from Inl hl close_chan_Inl [of "Shutdown h" st oc sx]
      obtain m where "sx = st" "oc = Panic m" by auto
      with Some Inl hl have "close_handlers (i # js) st = Inl (Panic m, st)" by simp
      then show ?thesis by (intro exI [of _ st] exI [of _ "[]"]) simp
    next
      case (Inr st1)
      note c1 = close_chan_Inr [OF Inr]
      show ?thesis
      proof (cases "close_chan (Input h) st1")
        case (Inl halt)
        obtain oc sx where hl: "halt = (oc, sx)" by (cases halt)
        from Inl hl close_chan_Inl [of "Input h" st1 oc sx]
        obtain m where "sx = st1" "oc = Panic m" by auto
        with Some Inr Inl hl have "close_handlers (i # js) st = Inl (Panic m, st1)" by simp
        with c1 show ?thesis
          by (intro exI [of _ st1] exI [of _ "[Close (Shutdown h)]"]) simp
      next
        case st2: (Inr st2)
        note c2 = close_chan_Inr [OF st2]
        from Some Inr st2 have e: "close_handlers (i # js) st = close_handlers js st2" by simp
        from Cons.IH [of st2] obtain st' cs where
          "close_handlers js st2 = Inr st' \<or> (\<exists>m. close_handlers js st2 = Inl (Panic m, st'))"
          "trace st' = trace st2 @ cs" "list_all is_close cs"
          "pstate st' = pstate st2" "fault st' = fault st2"
          "shutdown st' = shutdown st2" "waited st' = waited st2" by blast
        with c1 c2 e show ?thesis
          by (intro exI [of _ st'] exI [of _ "Close (Shutdown h) # Close (Input h) # cs"]) simp
      qed
    qed
  qed
qed

lemma close_handlers_ok:
  assumes "distinct js"
    and "\<forall>j\<in>set js. Handlers st j = Some (handler_at base d j)"
    and "\<forall>j\<in>set js. (\<exists>k. heap st (base + 2 * j) = Some \<lparr>cap = k, closed = False\<rparr>)
                    \<and> (\<exists>k. heap st (base + 2 * j + 1) = Some \<lparr>cap = k, closed = False\<rparr>)"
  shows "\<exists>st'. close_handlers js st = Inr st'
    \<and> trace st' = trace st @ concat (map (\<lambda>j. [Close (base + 2 * j + 1), Close (base + 2 * j)]) js)
    \<and> pstate st' = pstate st \<and> fault st' = fault st
    \<and> shutdown st' = shutdown st \<and> waited st' = waited st
    \<and> Handlers st' = Handlers st"
  using assms
proof (induction js arbitrary: st)
  case Nil
  then show ?case by simp
next
  case (Cons i js)
  from Cons.prems(2) have hi: "Handlers st i = Some (handler_at base d i)" by simp
  from Cons.prems(3) obtain k1 k2 where
    o1: "heap st (base + 2 * i) = Some \<lparr>cap = k1, closed = False\<rparr>" and
    o2: "heap st (base + 2 * i + 1) = Some \<lparr>cap = k2, closed = False\<rparr>" by auto
  define st1 where "st1 = emit (Close (base + 2 * i + 1))
      (st\<lparr>heap := (heap st)(base + 2 * i + 1 \<mapsto> \<lparr>cap = k2, closed = True\<rparr>)\<rparr>)"
  define st2 where "st2 = emit (Close (base + 2 * i))
      (st1\<lparr>heap := (heap st1)(base + 2 * i \<mapsto> \<lparr>cap = k1, closed = True\<rparr>)\<rparr>)"
  have c1: "close_chan (Shutdown (handler_at base d i)) st = Inr st1"
    using close_chan_open [OF o2] by (simp add: handler_at_def st1_def)
  have "heap st1 (base + 2 * i) = Some \<lparr>cap = k1, closed = False\<rparr>"
    using o1 by (simp add: st1_def)
  from close_chan_open [OF this]
  have c2: "close_chan (Input (handler_at base d i)) st1 = Inr st2"
    by (simp add: handler_at_def st2_def)
  have step: "close_handlers (i # js) st = close_handlers js st2"
    using hi c1 c2 by simp
  have r2: "Handlers st2 = Handlers st" by (simp add: st2_def st1_def)
  have p1: "distinct js" using Cons.prems(1) by simp
  have p2: "\<forall>j\<in>set js. Handlers st2 j = Some (handler_at base d j)"
    using Cons.prems(2) r2 by simp
  have p3: "\<forall>j\<in>set js. (\<exists>k. heap st2 (base + 2 * j) = Some \<lparr>cap = k, closed = False\<rparr>)
                    \<and> (\<exists>k. heap st2 (base + 2 * j + 1) = Some \<lparr>cap = k, closed = False\<rparr>)"
  proof
    fix j assume j: "j \<in> set js"
    with Cons.prems(1) have ne: "j \<noteq> i" by auto
    then have "base + 2 * j \<noteq> base + 2 * i" "base + 2 * j \<noteq> base + 2 * i + 1"
      "base + 2 * j + 1 \<noteq> base + 2 * i" "base + 2 * j + 1 \<noteq> base + 2 * i + 1"
      by presburger+
    then have "heap st2 (base + 2 * j) = heap st (base + 2 * j)"
      "heap st2 (base + 2 * j + 1) = heap st (base + 2 * j + 1)"
      by (simp_all add: st2_def st1_def)
    with Cons.prems(3) j
    show "(\<exists>k. heap st2 (base + 2 * j) = Some \<lparr>cap = k, closed = False\<rparr>)
        \<and> (\<exists>k. heap st2 (base + 2 * j + 1) = Some \<lparr>cap = k, closed = False\<rparr>)"
      by simp
  qed
  from Cons.IH [OF p1 p2 p3] obtain st' where
    "close_handlers js st2 = Inr st'"
    "trace st' = trace st2 @ concat (map (\<lambda>j. [Close (base + 2 * j + 1), Close (base + 2 * j)]) js)"
    "pstate st' = pstate st2" "fault st' = fault st2"
    "shutdown st' = shutdown st2" "waited st' = waited st2"
    "Handlers st' = Handlers st2" by blast
  with step show ?case by (simp add: st2_def st1_def)
qed

lemma close_all_any:
  "\<exists>st' cs. (close_all e l st = Inr st' \<and> cs \<noteq> [] \<or> (\<exists>m. close_all e l st = Inl (Panic m, st')))
        \<and> trace st' = trace st @ cs \<and> list_all is_close cs
        \<and> pstate st' = pstate st \<and> fault st' = fault st
        \<and> shutdown st' = shutdown st \<and> waited st' = waited st"
proof (cases "close_chan (ms_Shutdown (ms_of l)) st")
  case (Inl halt)
  obtain oc sx where hl: "halt = (oc, sx)" by (cases halt)
  from Inl hl close_chan_Inl [of "ms_Shutdown (ms_of l)" st oc sx]
  obtain m where "sx = st" "oc = Panic m" by auto
  with Inl hl have "close_all e l st = Inl (Panic m, st)" by (simp add: close_all_def)
  then show ?thesis by (intro exI [of _ st] exI [of _ "[]"]) simp
next
  case (Inr st1)
  note c1 = close_chan_Inr [OF Inr]
  from Inr have e: "close_all e l st = close_handlers (rangeHandlers e) st1"
    by (simp add: close_all_def)
  from close_handlers_any [of "rangeHandlers e" st1] obtain st' cs where
    "close_handlers (rangeHandlers e) st1 = Inr st'
       \<or> (\<exists>m. close_handlers (rangeHandlers e) st1 = Inl (Panic m, st'))"
    "trace st' = trace st1 @ cs" "list_all is_close cs"
    "pstate st' = pstate st1" "fault st' = fault st1"
    "shutdown st' = shutdown st1" "waited st' = waited st1" by blast
  with c1 e show ?thesis
    by (intro exI [of _ st'] exI [of _ "Close (ms_Shutdown (ms_of l)) # cs"]) auto
qed

lemma close_all_ok:
  assumes "heap st (ms_Shutdown (ms_of l)) = Some \<lparr>cap = k, closed = False\<rparr>"
    and "ms_Shutdown (ms_of l) < base"
    and "distinct (rangeHandlers e)"
    and "\<forall>j\<in>set (rangeHandlers e). Handlers st j = Some (handler_at base d j)"
    and "\<forall>j\<in>set (rangeHandlers e).
           (\<exists>k. heap st (base + 2 * j) = Some \<lparr>cap = k, closed = False\<rparr>)
         \<and> (\<exists>k. heap st (base + 2 * j + 1) = Some \<lparr>cap = k, closed = False\<rparr>)"
  shows "\<exists>st'. close_all e l st = Inr st'
    \<and> trace st' = trace st @ Close (ms_Shutdown (ms_of l))
        # concat (map (\<lambda>j. [Close (base + 2 * j + 1), Close (base + 2 * j)]) (rangeHandlers e))
    \<and> pstate st' = pstate st \<and> fault st' = fault st
    \<and> shutdown st' = shutdown st \<and> waited st' = waited st
    \<and> Handlers st' = Handlers st"
proof -
  define st1 where "st1 = emit (Close (ms_Shutdown (ms_of l)))
      (st\<lparr>heap := (heap st)(ms_Shutdown (ms_of l) \<mapsto> \<lparr>cap = k, closed = True\<rparr>)\<rparr>)"
  have c1: "close_chan (ms_Shutdown (ms_of l)) st = Inr st1"
    using close_chan_open [OF assms(1)] by (simp add: st1_def)
  have r1: "Handlers st1 = Handlers st" by (simp add: st1_def)
  have h1: "\<And>ch. base \<le> ch \<Longrightarrow> heap st1 ch = heap st ch"
    using assms(2) by (simp add: st1_def)
  have p2: "\<forall>j\<in>set (rangeHandlers e). Handlers st1 j = Some (handler_at base d j)"
    using assms(4) r1 by simp
  have p3: "\<forall>j\<in>set (rangeHandlers e).
           (\<exists>k. heap st1 (base + 2 * j) = Some \<lparr>cap = k, closed = False\<rparr>)
         \<and> (\<exists>k. heap st1 (base + 2 * j + 1) = Some \<lparr>cap = k, closed = False\<rparr>)"
    using assms(5) h1 by simp
  from close_handlers_ok [OF assms(3) p2 p3] obtain st' where
    "close_handlers (rangeHandlers e) st1 = Inr st'"
    "trace st' = trace st1 @ concat (map (\<lambda>j. [Close (base + 2 * j + 1), Close (base + 2 * j)]) (rangeHandlers e))"
    "pstate st' = pstate st1" "fault st' = fault st1"
    "shutdown st' = shutdown st1" "waited st' = waited st1"
    "Handlers st' = Handlers st1" by blast
  with c1 show ?thesis by (simp add: close_all_def st1_def)
qed

subsection \<open>The drain loop and the end of main\<close>

lemma log_straggler_emit: "log_straggler a st = emit (straggler_line a) st"
  by (cases a) (simp_all add: log_straggler_def)

lemma drainloop_frame:
  "heap (drainloop as st) = heap st \<and> Handlers (drainloop as st) = Handlers st
   \<and> pstate (drainloop as st) = pstate st \<and> fault (drainloop as st) = fault st
   \<and> shutdown (drainloop as st) = shutdown st \<and> next_chan (drainloop as st) = next_chan st"
  by (induction as st rule: drainloop.induct) (simp_all add: log_straggler_emit)

lemma drainloop_trace: "trace (drainloop as st) = trace st @ drain_actions as"
  by (induction as st rule: drainloop.induct)
     (simp_all add: log_straggler_emit drain_actions_def received_def)

lemma drainloop_waited:
  "waited (drainloop as st) = waited st + sum_list (map fst (received as)) + millisecond * 10"
  by (induction as st rule: drainloop.induct)
     (simp_all add: log_straggler_emit received_def)

lemma finish_outcome: "fst (finish e st) = (if fault st then Exit 1 else Exit 0)"
  by (simp add: finish_def Let_def split: option.splits)

lemma finish_frame:
  "pstate (snd (finish e st)) = pstate st \<and> fault (snd (finish e st)) = fault st
   \<and> shutdown (snd (finish e st)) = shutdown st \<and> heap (snd (finish e st)) = heap st
   \<and> Handlers (snd (finish e st)) = Handlers st \<and> waited (snd (finish e st)) = waited st"
  by (simp add: finish_def Let_def split: option.splits)

lemma finish_trace:
  "trace (snd (finish e (time_After (millisecond * 10) st))) = trace st @ finish_actions e (fault st)"
  by (simp add: finish_def time_After_def finish_actions_def Let_def split: option.splits)

lemma time_After_frame:
  "pstate (time_After d st) = pstate st \<and> fault (time_After d st) = fault st
   \<and> shutdown (time_After d st) = shutdown st \<and> heap (time_After d st) = heap st
   \<and> Handlers (time_After d st) = Handlers st \<and> waited (time_After d st) = waited st + d
   \<and> trace (time_After d st) = trace st @ [TimeAfter d, TimerExpired d]"
  by (simp add: time_After_def)

subsection \<open>The shutdown sequence as a whole\<close>

lemma grace_frame:
  "pstate (grace st) = pstate st \<and> fault (grace st) = fault st
   \<and> shutdown (grace st) = shutdown st \<and> heap (grace st) = heap st
   \<and> Handlers (grace st) = Handlers st
   \<and> trace (grace st) = trace st @ grace_actions (shutdown st)"
  by (simp add: grace_def grace_actions_def time_After_frame)

lemma teardown_shape:
  "\<exists>cs post. list_all is_close cs
     \<and> trace (snd (teardown e l st)) = trace st @ grace_actions (shutdown st) @ cs @ post
     \<and> pstate (snd (teardown e l st)) = pstate st
     \<and> fault (snd (teardown e l st)) = fault st
     \<and> shutdown (snd (teardown e l st)) = shutdown st
     \<and> ((\<exists>m. fst (teardown e l st) = Panic m) \<and> post = []
        \<or> cs \<noteq> [] \<and> fst (teardown e l st) = (if fault st then Exit 1 else Exit 0)
          \<and> post = drain_actions (drainSelect e) @ finish_actions e (fault st))"
proof -
  from close_all_any [of e l "grace st"] obtain st1 cs where
    r: "close_all e l (grace st) = Inr st1 \<and> cs \<noteq> []
        \<or> (\<exists>m. close_all e l (grace st) = Inl (Panic m, st1))"
    and t: "trace st1 = trace (grace st) @ cs" and c: "list_all is_close cs"
    and f: "pstate st1 = pstate (grace st)" "fault st1 = fault (grace st)"
      "shutdown st1 = shutdown (grace st)" by blast
  from r show ?thesis
  proof
    assume "\<exists>m. close_all e l (grace st) = Inl (Panic m, st1)"
    then obtain m where "close_all e l (grace st) = Inl (Panic m, st1)" ..
    then have "teardown e l st = (Panic m, st1)" by (simp add: teardown_def)
    with t c f show ?thesis
      by (intro exI [of _ cs] exI [of _ "[]"]) (simp add: grace_frame)
  next
    assume a: "close_all e l (grace st) = Inr st1 \<and> cs \<noteq> []"
    then have td: "teardown e l st
        = finish e (time_After (millisecond * 10) (drainloop (drainSelect e) st1))"
      by (simp add: teardown_def)
    have "trace (snd (teardown e l st))
        = trace st @ grace_actions (shutdown st) @ cs
          @ drain_actions (drainSelect e) @ finish_actions e (fault st)"
      using t f by (simp add: td finish_trace drainloop_trace drainloop_frame grace_frame)
    moreover have "fst (teardown e l st) = (if fault st then Exit 1 else Exit 0)"
      using f by (simp add: td finish_outcome time_After_frame drainloop_frame grace_frame)
    moreover have "pstate (snd (teardown e l st)) = pstate st"
      "fault (snd (teardown e l st)) = fault st" "shutdown (snd (teardown e l st)) = shutdown st"
      using f by (simp_all add: td finish_frame time_After_frame drainloop_frame grace_frame)
    ultimately show ?thesis using a c
      by (intro exI [of _ cs]
            exI [of _ "drain_actions (drainSelect e) @ finish_actions e (fault st)"]) simp
  qed
qed

lemma supervise_shape:
  "\<exists>xs. list_all calm xs \<and>
     (fst (supervise e l st) = Blocked
        \<and> \<not> shutdown (snd (supervise e l st)) \<and> \<not> fault (snd (supervise e l st))
        \<and> pstate (snd (supervise e l st)) = pstate st
        \<and> trace (snd (supervise e l st)) = trace st @ xs
      \<or> (\<exists>cs post. list_all is_close cs
          \<and> shutdown (snd (supervise e l st)) \<noteq> fault (snd (supervise e l st))
          \<and> pstate (snd (supervise e l st))
              = (if shutdown (snd (supervise e l st)) then setShuttingDown (pstate st)
                 else setUnavailable (pstate st))
          \<and> trace (snd (supervise e l st))
              = trace st @ xs @ [commit_action (shutdown (snd (supervise e l st)))]
                @ grace_actions (shutdown (snd (supervise e l st))) @ cs @ post
          \<and> ((\<exists>m. fst (supervise e l st) = Panic m) \<and> post = []
             \<or> cs \<noteq> []
               \<and> fst (supervise e l st)
                   = (if fault (snd (supervise e l st)) then Exit 1 else Exit 0)
               \<and> post = drain_actions (drainSelect e)
                   @ finish_actions e (fault (snd (supervise e l st))))))"
proof -
  define st0 where "st0 = st\<lparr>fault := False, shutdown := False\<rparr>"
  obtain b st1 where rl: "runloop (runSelect e) st0 = (b, st1)" by (cases "runloop (runSelect e) st0")
  show ?thesis
  proof (cases b)
    case False
    with rl have sv: "supervise e l st = (Blocked, st1)" by (simp add: supervise_def st0_def)
    from runloop_stays [of "runSelect e" st0 st1] rl False obtain xs where
      "pstate st1 = pstate st0" "fault st1 = fault st0" "shutdown st1 = shutdown st0"
      "trace st1 = trace st0 @ xs" "list_all calm xs" by auto
    then show ?thesis
      by (intro exI [of _ xs]) (simp add: sv st0_def)
  next
    case True
    with rl have sv: "supervise e l st = teardown e l st1" by (simp add: supervise_def st0_def)
    from runloop_leaves [of "runSelect e" st0 st1] rl True obtain xs where
      cx: "list_all calm xs" and
      br: "trace st1 = trace st0 @ xs @ [SetShutdown] \<and> shutdown st1 \<and> fault st1 = fault st0
          \<and> pstate st1 = setShuttingDown (pstate st0)
        \<or> trace st1 = trace st0 @ xs @ [SetUnavailable] \<and> fault st1 \<and> shutdown st1 = shutdown st0
          \<and> pstate st1 = setUnavailable (pstate st0)" by auto
    then have k: "shutdown st1 \<noteq> fault st1"
      "pstate st1 = (if shutdown st1 then setShuttingDown (pstate st) else setUnavailable (pstate st))"
      "trace st1 = trace st @ xs @ [commit_action (shutdown st1)]"
      by (auto simp: st0_def commit_action_def)
    from teardown_shape [of e l st1] obtain cs post where
      c: "list_all is_close cs"
      and t: "trace (snd (teardown e l st1)) = trace st1 @ grace_actions (shutdown st1) @ cs @ post"
      and f: "pstate (snd (teardown e l st1)) = pstate st1"
        "fault (snd (teardown e l st1)) = fault st1"
        "shutdown (snd (teardown e l st1)) = shutdown st1"
      and o: "(\<exists>m. fst (teardown e l st1) = Panic m) \<and> post = []
        \<or> cs \<noteq> [] \<and> fst (teardown e l st1) = (if fault st1 then Exit 1 else Exit 0)
          \<and> post = drain_actions (drainSelect e) @ finish_actions e (fault st1)" by blast
    show ?thesis
      apply (rule exI [of _ xs])
      apply (rule conjI [OF cx])
      apply (rule disjI2)
      apply (rule exI [of _ cs])
      apply (rule exI [of _ post])
      using k t f o c by (simp add: sv)
  qed
qed

lemma runloop_commits_iff:
  "fst (runloop evs st) = (\<exists>ev\<in>set evs. is_commit_trigger ev)"
  by (induction evs st rule: runloop.induct) simp_all

lemma teardown_ok:
  assumes "heap st (ms_Shutdown (ms_of l)) = Some \<lparr>cap = k, closed = False\<rparr>"
    and "ms_Shutdown (ms_of l) < base"
    and "distinct (rangeHandlers e)"
    and "\<forall>j\<in>set (rangeHandlers e). Handlers st j = Some (handler_at base d j)"
    and "\<forall>j\<in>set (rangeHandlers e).
           (\<exists>k. heap st (base + 2 * j) = Some \<lparr>cap = k, closed = False\<rparr>)
         \<and> (\<exists>k. heap st (base + 2 * j + 1) = Some \<lparr>cap = k, closed = False\<rparr>)"
  shows "fst (teardown e l st) = (if fault st then Exit 1 else Exit 0)
    \<and> trace (snd (teardown e l st)) = trace st @ grace_actions (shutdown st)
        @ drain_closes (ms_of l) (Handlers st) (rangeHandlers e)
        @ drain_actions (drainSelect e) @ finish_actions e (fault st)
    \<and> Handlers (snd (teardown e l st)) = Handlers st
    \<and> pstate (snd (teardown e l st)) = pstate st
    \<and> fault (snd (teardown e l st)) = fault st
    \<and> shutdown (snd (teardown e l st)) = shutdown st
    \<and> waited (snd (teardown e l st)) = waited st + (if shutdown st then second * 95 else 0)
        + sum_list (map fst (received (drainSelect e))) + millisecond * 10 + millisecond * 10"
proof -
  have g: "heap (grace st) = heap st" "Handlers (grace st) = Handlers st"
    by (simp_all add: grace_frame)
  have gw: "waited (grace st) = waited st + (if shutdown st then second * 95 else 0)"
    by (simp add: grace_def time_After_frame)
  from close_all_ok [of "grace st" l k base e d] assms g
  obtain st1 where
    ca: "close_all e l (grace st) = Inr st1"
    and t1: "trace st1 = trace (grace st) @ Close (ms_Shutdown (ms_of l))
        # concat (map (\<lambda>j. [Close (base + 2 * j + 1), Close (base + 2 * j)]) (rangeHandlers e))"
    and f1: "pstate st1 = pstate (grace st)" "fault st1 = fault (grace st)"
      "shutdown st1 = shutdown (grace st)" "waited st1 = waited (grace st)"
      "Handlers st1 = Handlers (grace st)" by auto
  have "map (\<lambda>j. [Close (Suc (base + 2 * j)), Close (base + 2 * j)]) (rangeHandlers e)
      = map (handler_closes (Handlers st)) (rangeHandlers e)"
    using assms(4) by (simp add: handler_closes_def handler_at_def)
  then have dc: "concat (map (\<lambda>j. [Close (Suc (base + 2 * j)), Close (base + 2 * j)]) (rangeHandlers e))
      = concat (map (handler_closes (Handlers st)) (rangeHandlers e))"
    by (rule arg_cong)
  have td: "teardown e l st
      = finish e (time_After (millisecond * 10) (drainloop (drainSelect e) st1))"
    using ca by (simp add: teardown_def)
  show ?thesis
    using t1 f1 gw dc
    by (simp add: td finish_trace finish_outcome finish_frame time_After_frame drainloop_trace
        drainloop_frame drainloop_waited grace_frame drain_closes_def)
qed

lemma init_state_facts:
  "next_chan (init initial_state) = 0" "pstate (init initial_state) = Healthy"
  "fault (init initial_state) = False" "shutdown (init initial_state) = False"
  "waited (init initial_state) = 0" "Handlers (init initial_state) = Map.empty"
  "trace (init initial_state) = [DisableZKLogger, SetLogrusOptions]"
  by (simp_all add: init_def initial_state_def)

lemma run_shape:
  "\<exists>pre. list_all calm pre \<and>
     (\<not> shutdown (snd (run e)) \<and> \<not> fault (snd (run e))
        \<and> pstate (snd (run e)) = Healthy
        \<and> trace (snd (run e)) = pre
      \<or> (\<exists>cs post. list_all is_close cs
          \<and> shutdown (snd (run e)) \<noteq> fault (snd (run e))
          \<and> pstate (snd (run e))
              = (if shutdown (snd (run e)) then ShuttingDown else Unavailable)
          \<and> trace (snd (run e))
              = pre @ [commit_action (shutdown (snd (run e)))]
                @ grace_actions (shutdown (snd (run e))) @ cs @ post
          \<and> ((\<exists>m. fst (run e) = Panic m) \<and> post = []
             \<or> cs \<noteq> []
               \<and> fst (run e) = (if fault (snd (run e)) then Exit 1 else Exit 0)
               \<and> post = drain_actions (drainSelect e)
                   @ finish_actions e (fault (snd (run e))))))"
proof (cases "versionFlag e")
  case True
  then show ?thesis
    by (intro exI [of _ "trace (snd (run e))"])
       (simp add: run_def main_def print_version_def init_state_facts)
next
  case nv: False
  show ?thesis
  proof (cases "startup e (init initial_state)")
    case (Inl halt)
    obtain oc sx where hl: "halt = (oc, sx)" by (cases halt)
    from startup_Inl [of e "init initial_state" oc sx] Inl hl obtain xs where
      "pstate sx = Healthy" "fault sx = False" "shutdown sx = False"
      "trace sx = [DisableZKLogger, SetLogrusOptions] @ xs" "list_all calm xs"
      by (auto simp: init_state_facts)
    moreover have "run e = (oc, sx)" using nv Inl hl by (simp add: run_def main_def)
    ultimately show ?thesis
      by (intro exI [of _ "[DisableZKLogger, SetLogrusOptions] @ xs"]) simp
  next
    case (Inr ok)
    obtain l st where ok: "ok = (l, st)" by (cases ok)
    from startup_Inr [of e "init initial_state" l st] Inr ok obtain miConf where
      cf: "fromFile e = Inr miConf" "newFileWriter e = None"
        "(0 \<le> Mistral_HandlerQueueLength miConf
          \<and> Mistral_HandlerQueueLength miConf \<le> int (chanSizeLimit e)) \<or> numCPU e = 0" by auto
    from startup_ok [OF cf, of "init initial_state"] Inr ok obtain xs ys where
      t: "trace st = trace (init initial_state) @ xs
           @ concat (map (launch_actions (first_handler_chan (main_locals miConf 0))
                          (handlerDeath_of (main_locals miConf 0))
                          (nat (Mistral_HandlerQueueLength miConf))) [0..<numCPU e]) @ ys"
      and c: "list_all calm xs" "list_all calm ys"
      and f: "pstate st = Healthy"
      by (auto simp: init_state_facts)
    have ct: "list_all calm (trace st)"
      using t c by (simp add: init_state_facts calm_launch_actions)
    have r: "run e = supervise e l st" using nv Inr ok by (simp add: run_def main_def)
    from supervise_shape [of e l st] obtain zs where
      cz: "list_all calm zs" and
      sh: "fst (supervise e l st) = Blocked
        \<and> \<not> shutdown (snd (supervise e l st)) \<and> \<not> fault (snd (supervise e l st))
        \<and> pstate (snd (supervise e l st)) = pstate st
        \<and> trace (snd (supervise e l st)) = trace st @ zs
      \<or> (\<exists>cs post. list_all is_close cs
          \<and> shutdown (snd (supervise e l st)) \<noteq> fault (snd (supervise e l st))
          \<and> pstate (snd (supervise e l st))
              = (if shutdown (snd (supervise e l st)) then setShuttingDown (pstate st)
                 else setUnavailable (pstate st))
          \<and> trace (snd (supervise e l st))
              = trace st @ zs @ [commit_action (shutdown (snd (supervise e l st)))]
                @ grace_actions (shutdown (snd (supervise e l st))) @ cs @ post
          \<and> ((\<exists>m. fst (supervise e l st) = Panic m) \<and> post = []
             \<or> cs \<noteq> []
               \<and> fst (supervise e l st)
                   = (if fault (snd (supervise e l st)) then Exit 1 else Exit 0)
               \<and> post = drain_actions (drainSelect e)
                   @ finish_actions e (fault (snd (supervise e l st)))))" by blast
    have cp: "list_all calm (trace st @ zs)" using ct cz by simp
    from sh show ?thesis
    proof
      assume "fst (supervise e l st) = Blocked
        \<and> \<not> shutdown (snd (supervise e l st)) \<and> \<not> fault (snd (supervise e l st))
        \<and> pstate (snd (supervise e l st)) = pstate st
        \<and> trace (snd (supervise e l st)) = trace st @ zs"
      with cp f show ?thesis
        by (intro exI [of _ "trace st @ zs"]) (simp add: r)
    next
      assume "\<exists>cs post. list_all is_close cs
          \<and> shutdown (snd (supervise e l st)) \<noteq> fault (snd (supervise e l st))
          \<and> pstate (snd (supervise e l st))
              = (if shutdown (snd (supervise e l st)) then setShuttingDown (pstate st)
                 else setUnavailable (pstate st))
          \<and> trace (snd (supervise e l st))
              = trace st @ zs @ [commit_action (shutdown (snd (supervise e l st)))]
                @ grace_actions (shutdown (snd (supervise e l st))) @ cs @ post
          \<and> ((\<exists>m. fst (supervise e l st) = Panic m) \<and> post = []
             \<or> cs \<noteq> []
               \<and> fst (supervise e l st)
                   = (if fault (snd (supervise e l st)) then Exit 1 else Exit 0)
               \<and> post = drain_actions (drainSelect e)
                   @ finish_actions e (fault (snd (supervise e l st))))"
      then obtain cs post where
        "list_all is_close cs"
        "shutdown (snd (supervise e l st)) \<noteq> fault (snd (supervise e l st))"
        "pstate (snd (supervise e l st))
              = (if shutdown (snd (supervise e l st)) then setShuttingDown (pstate st)
                 else setUnavailable (pstate st))"
        "trace (snd (supervise e l st))
              = trace st @ zs @ [commit_action (shutdown (snd (supervise e l st)))]
                @ grace_actions (shutdown (snd (supervise e l st))) @ cs @ post"
        "(\<exists>m. fst (supervise e l st) = Panic m) \<and> post = []
             \<or> cs \<noteq> []
               \<and> fst (supervise e l st)
                   = (if fault (snd (supervise e l st)) then Exit 1 else Exit 0)
               \<and> post = drain_actions (drainSelect e)
                   @ finish_actions e (fault (snd (supervise e l st)))" by blast
      with f cp show ?thesis
        apply (intro exI [of _ "trace st @ zs"] conjI)
         apply assumption
        apply (rule disjI2)
        apply (rule exI [of _ cs])
        apply (rule exI [of _ post])
        by (simp add: r setShuttingDown_def setUnavailable_def)
    qed
  qed
qed

lemma run_ok:
  assumes nv: "\<not> versionFlag e"
    and su: "startup e (init initial_state) = Inr (l, st)"
    and ro: "range_ok e"
    and tr: "\<exists>ev\<in>set (runSelect e). is_commit_trigger ev"
  shows "\<exists>xs. list_all calm xs
    \<and> fst (run e) = (if fault (snd (run e)) then Exit 1 else Exit 0)
    \<and> shutdown (snd (run e)) \<noteq> fault (snd (run e))
    \<and> pstate (snd (run e)) = (if shutdown (snd (run e)) then ShuttingDown else Unavailable)
    \<and> trace (snd (run e)) = trace st @ xs @ [commit_action (shutdown (snd (run e)))]
        @ grace_actions (shutdown (snd (run e)))
        @ drain_closes (ms_of l) (Handlers st) (rangeHandlers e)
        @ drain_actions (drainSelect e) @ finish_actions e (fault (snd (run e)))
    \<and> Handlers (snd (run e)) = Handlers st
    \<and> waited (snd (run e)) = (if shutdown (snd (run e)) then second * 95 else 0)
        + sum_list (map fst (received (drainSelect e))) + millisecond * 10 + millisecond * 10"
proof -
  from startup_Inr [OF su] obtain miConf where
    cf: "fromFile e = Inr miConf" "newFileWriter e = None"
      "(0 \<le> Mistral_HandlerQueueLength miConf
          \<and> Mistral_HandlerQueueLength miConf \<le> int (chanSizeLimit e)) \<or> numCPU e = 0" by auto
  define B where "B = first_handler_chan l"
  define d where "d = handlerDeath_of l"
  from startup_ok [OF cf, of "init initial_state"] su have
    l: "l = main_locals miConf 0"
    and hm: "heap st (ms_Shutdown (ms_of l)) = Some \<lparr>cap = 0, closed = False\<rparr>"
    and hh: "\<forall>j. j < numCPU e \<longrightarrow>
          heap st (B + 2 * j) = Some \<lparr>cap = nat (Mistral_HandlerQueueLength miConf), closed = False\<rparr>
        \<and> heap st (B + 2 * j + 1) = Some \<lparr>cap = 0, closed = False\<rparr>"
    and rg: "\<forall>j. Handlers st j = (if j < numCPU e then Some (handler_at B d j) else None)"
    and f: "pstate st = Healthy" "waited st = 0"
    by (auto simp: init_state_facts B_def d_def)
  define st0 where "st0 = st\<lparr>fault := False, shutdown := False\<rparr>"
  obtain b st1 where rl: "runloop (runSelect e) st0 = (b, st1)"
    by (cases "runloop (runSelect e) st0")
  from runloop_commits_iff [of "runSelect e" st0] rl tr have b: "b" by simp
  have r: "run e = teardown e l st1"
    using nv su rl b by (simp add: run_def main_def supervise_def st0_def)
  from runloop_frame [OF rl] have fr:
    "heap st1 = heap st" "Handlers st1 = Handlers st" "waited st1 = waited st"
    by (simp_all add: st0_def)
  from runloop_leaves [of "runSelect e" st0 st1] rl b obtain xs where
    cx: "list_all calm xs" and
    br: "trace st1 = trace st0 @ xs @ [SetShutdown] \<and> shutdown st1 \<and> fault st1 = fault st0
          \<and> pstate st1 = setShuttingDown (pstate st0)
        \<or> trace st1 = trace st0 @ xs @ [SetUnavailable] \<and> fault st1 \<and> shutdown st1 = shutdown st0
          \<and> pstate st1 = setUnavailable (pstate st0)" by auto
  then have k: "shutdown st1 \<noteq> fault st1"
    "pstate st1 = (if shutdown st1 then ShuttingDown else Unavailable)"
    "trace st1 = trace st @ xs @ [commit_action (shutdown st1)]"
    using f by (auto simp: st0_def commit_action_def setShuttingDown_def setUnavailable_def)
  have a1: "heap st1 (ms_Shutdown (ms_of l)) = Some \<lparr>cap = 0, closed = False\<rparr>"
    using hm fr by simp
  have a2: "ms_Shutdown (ms_of l) < B" by (simp add: B_def first_handler_chan_def)
  have a3: "distinct (rangeHandlers e)" using ro by (simp add: range_ok_def)
  have lt: "\<forall>j\<in>set (rangeHandlers e). j < numCPU e" using ro by (simp add: range_ok_def)
  have a4: "\<forall>j\<in>set (rangeHandlers e). Handlers st1 j = Some (handler_at B d j)"
    using lt rg fr by simp
  have a5: "\<forall>j\<in>set (rangeHandlers e).
           (\<exists>k. heap st1 (B + 2 * j) = Some \<lparr>cap = k, closed = False\<rparr>)
         \<and> (\<exists>k. heap st1 (B + 2 * j + 1) = Some \<lparr>cap = k, closed = False\<rparr>)"
    using lt hh fr by simp
  from teardown_ok [OF a1 a2 a3 a4 a5] k fr f cx show ?thesis
    by (intro exI [of _ xs]) (simp add: r)
qed

subsection \<open>What the parts of a trace contain\<close>

lemma calm_facts:
  "calm a \<Longrightarrow> \<not> is_close a \<and> \<not> is_transition a \<and> a \<noteq> LogInfo ''MISTRAL shutdown complete''
     \<and> a \<noteq> TimeAfter d \<and> a \<noteq> TimerExpired d"
  by (cases a) auto

lemma calm_list_facts:
  assumes "list_all calm xs"
  shows "list_all (\<lambda>a. \<not> is_close a) xs" "list_all (\<lambda>a. \<not> is_transition a) xs"
    "LogInfo ''MISTRAL shutdown complete'' \<notin> set xs" "TimeAfter d \<notin> set xs"
    "SetShutdown \<notin> set xs" "SetUnavailable \<notin> set xs"
  using assms calm_facts by (auto simp: list_all_iff)

lemma is_close_iff: "is_close a \<longleftrightarrow> (\<exists>ch. a = Close ch)"
  by (cases a) simp_all

lemma close_list_facts:
  assumes "list_all is_close cs"
  shows "list_all (\<lambda>a. \<not> is_transition a) cs"
    "LogInfo ''MISTRAL shutdown complete'' \<notin> set cs" "TimeAfter d \<notin> set cs"
    "SetShutdown \<notin> set cs" "SetUnavailable \<notin> set cs" "started_handlers cs = []"
  using assms by (auto simp: list_all_iff started_handlers_def is_close_iff)

lemma straggler_line_is_log: "\<exists>m. straggler_line a = LogError m"
  by (cases a) simp_all

lemma drain_actions_facts:
  "list_all (\<lambda>a. \<not> is_close a) (drain_actions as)"
  "list_all (\<lambda>a. \<not> is_transition a) (drain_actions as)"
  "LogInfo m \<notin> set (drain_actions as)"
  "TimeAfter (second * 95) \<notin> set (drain_actions as)"
  "SetShutdown \<notin> set (drain_actions as)" "SetUnavailable \<notin> set (drain_actions as)"
  "started_handlers (drain_actions as) = []"
proof -
  have s: "\<forall>x\<in>set (drain_actions as).
      x = TimeAfter (millisecond * 10) \<or> x = TimerExpired (millisecond * 10) \<or> (\<exists>m. x = LogError m)"
    using straggler_line_is_log by (auto simp: drain_actions_def)
  show "list_all (\<lambda>a. \<not> is_close a) (drain_actions as)"
    using s by (fastforce simp: list_all_iff)
  show "list_all (\<lambda>a. \<not> is_transition a) (drain_actions as)"
    using s by (fastforce simp: list_all_iff)
  show "LogInfo m \<notin> set (drain_actions as)"
    using s by fastforce
  show "TimeAfter (second * 95) \<notin> set (drain_actions as)"
    using s by (fastforce simp: second_def millisecond_def)
  show "SetShutdown \<notin> set (drain_actions as)"
    using s by fastforce
  show "SetUnavailable \<notin> set (drain_actions as)"
    using s by fastforce
  show "started_handlers (drain_actions as) = []"
    using s by (fastforce simp: started_handlers_def)
qed

lemma finish_actions_facts:
  "list_all (\<lambda>a. \<not> is_close a) (finish_actions e f)"
  "list_all (\<lambda>a. \<not> is_transition a) (finish_actions e f)"
  "LogInfo ''MISTRAL shutdown complete'' \<in> set (finish_actions e f)"
  "TimeAfter (second * 95) \<notin> set (finish_actions e f)"
  "SetShutdown \<notin> set (finish_actions e f)" "SetUnavailable \<notin> set (finish_actions e f)"
  "started_handlers (finish_actions e f) = []"
  by (auto simp: finish_actions_def second_def millisecond_def started_handlers_def
      split: option.splits)

lemma grace_actions_facts:
  "list_all (\<lambda>a. \<not> is_close a) (grace_actions sd)"
  "list_all (\<lambda>a. \<not> is_transition a) (grace_actions sd)"
  "LogInfo m \<notin> set (grace_actions sd)"
  "TimeAfter (second * 95) \<in> set (grace_actions sd) \<longleftrightarrow> sd"
  "SetShutdown \<notin> set (grace_actions sd)" "SetUnavailable \<notin> set (grace_actions sd)"
  "started_handlers (grace_actions sd) = []"
  by (auto simp: grace_actions_def started_handlers_def)

lemma commit_action_facts:
  "\<not> is_close (commit_action sd)" "is_transition (commit_action sd)"
  "commit_action sd \<noteq> LogInfo m" "commit_action sd \<noteq> TimeAfter d"
  "commit_action sd = SetShutdown \<longleftrightarrow> sd" "commit_action sd = SetUnavailable \<longleftrightarrow> \<not> sd"
  "started (commit_action sd) = []"
  by (auto simp: commit_action_def)

lemma committed_iff:
  "committed st = Some GracefulShutdown \<longleftrightarrow> shutdown st"
  "committed st = Some FaultShutdown \<longleftrightarrow> \<not> shutdown st \<and> fault st"
  "committed st = None \<longleftrightarrow> \<not> shutdown st \<and> \<not> fault st"
  by (auto simp: committed_def)

lemma committed_run:
  assumes "committed (snd (run e)) \<noteq> None"
  shows "\<not> versionFlag e \<and> (\<exists>l st. startup e (init initial_state) = Inr (l, st))
    \<and> (\<exists>ev\<in>set (runSelect e). is_commit_trigger ev)"
proof -
  have nv: "\<not> versionFlag e"
  proof
    assume "versionFlag e"
    then have "committed (snd (run e)) = None"
      by (simp add: run_def main_def print_version_def committed_def init_state_facts)
    with assms show False by simp
  qed
  have "\<exists>l st. startup e (init initial_state) = Inr (l, st)"
  proof (cases "startup e (init initial_state)")
    case (Inl halt)
    obtain oc sx where hl: "halt = (oc, sx)" by (cases halt)
    from startup_Inl [of e "init initial_state" oc sx] Inl hl
    have "fault sx = False" "shutdown sx = False" by (auto simp: init_state_facts)
    moreover have "run e = (oc, sx)" using nv Inl hl by (simp add: run_def main_def)
    ultimately have "committed (snd (run e)) = None" by (simp add: committed_def)
    with assms show ?thesis by simp
  next
    case (Inr ok)
    then show ?thesis by (cases ok) auto
  qed
  then obtain l st where su: "startup e (init initial_state) = Inr (l, st)" by blast
  have "\<exists>ev\<in>set (runSelect e). is_commit_trigger ev"
  proof (rule ccontr)
    assume n: "\<not> (\<exists>ev\<in>set (runSelect e). is_commit_trigger ev)"
    define st0 where "st0 = st\<lparr>fault := False, shutdown := False\<rparr>"
    obtain b st1 where rl: "runloop (runSelect e) st0 = (b, st1)"
      by (cases "runloop (runSelect e) st0")
    from runloop_commits_iff [of "runSelect e" st0] rl n have b: "\<not> b" by simp
    from runloop_stays [of "runSelect e" st0 st1] rl b
    have "fault st1 = False" "shutdown st1 = False" by (auto simp: st0_def)
    moreover have "run e = (Blocked, st1)"
      using nv su rl b by (simp add: run_def main_def supervise_def st0_def)
    ultimately have "committed (snd (run e)) = None" by (simp add: committed_def)
    with assms show False by simp
  qed
  with nv su show ?thesis by blast
qed

subsection \<open>The example runs, evaluated\<close>

lemma upt_two: "[0..<2] = [0, Suc 0]"
  by (simp add: upt_rec [of 0] upt_rec [of "Suc 0"])

lemmas run_eval_defs = upt_two
  run_def main_def init_def initial_state_def emit_def startup_def read_config_def
  setup_logfile_def prepare_def setup_logrotate_def setup_signals_def make_chan_def
  setup_metrics_def setup_socket_def metricPrefix_def start_handlers.simps start_handler_def
  make_chan_sized_def start_http_def listenHost_def supervise_def teardown_def grace_def
  close_all_def close_chan_def time_After_def finish_def mistral_SetShutdown_def
  mistral_SetUnavailable_def setShuttingDown_def setUnavailable_def log_straggler_def
  millisecond_def second_def decimal.simps print_version_def Let_def rangeHandlers_def

lemmas run_eval_congs =
  sum.case_cong_weak prod.case_cong_weak option.case_cong_weak list.case_cong_weak

lemma graceful_outcome: "fst (run env_graceful) = Exit 0"
  by (simp add: env_graceful_def cfg_example_def run_eval_defs cong: run_eval_congs)

lemma graceful_trace:
  "trace (snd (run env_graceful)) =
   [DisableZKLogger, SetLogrusOptions, ConfFromFile ''mistral.conf'',
    NewFileWriter ''/var/log'' ''mistral.log'', LogSetOutput,
    LogInfo ''Starting MISTRAL...'', MakeChan 0 1,
    SignalNotify 0 [SIGINT, SIGTERM], MakeChan 1 0,
    NewPrefixedRegistry ''/mistral'', NewRegisteredMeter ''/requests'',
    NewRegisteredMeter ''/messages'', MakeChan 2 0, MakeChan 3 0,
    NewMetricSocket 1, SetDebugFormatter,
    LogInfo ''Launched metrics producer socket'',
    Go (SocketRun \<lparr>ms_Errors = 2, ms_Shutdown = 3\<rparr>),
    MakeChan 4 4, MakeChan 5 0,
    RegisterHandler 0 \<lparr>Num = 0, Input = 4, Shutdown = 5, Death = 1\<rparr>,
    Go (HandlerStart \<lparr>Num = 0, Input = 4, Shutdown = 5, Death = 1\<rparr>),
    LogInfo ''Launched Mistral handler #0'',
    MakeChan 6 4, MakeChan 7 0,
    RegisterHandler 1 \<lparr>Num = 1, Input = 6, Shutdown = 7, Death = 1\<rparr>,
    Go (HandlerStart \<lparr>Num = 1, Input = 6, Shutdown = 7, Death = 1\<rparr>),
    LogInfo ''Launched Mistral handler #1'',
    RouterPOST ''/api'', RouterGET ''/health'', Go (ListenAndServe ''localhost:8080'' 1),
    LogError ''Socket error: write timeout'', LogInfo ''Received shutdown signal'',
    SetShutdown, TimeAfter 95000000000, TimerExpired 95000000000,
    Close 3, Close 5, Close 4, Close 7, Close 6,
    TimeAfter 10000000, LogError ''Handler error: stopped'',
    TimeAfter 10000000, TimerExpired 10000000,
    TimeAfter 10000000, TimerExpired 10000000,
    SrvShutdown 5000000000, LogInfo ''MISTRAL shutdown complete'', Cancel]"
  by (simp add: env_graceful_def cfg_example_def run_eval_defs cong: run_eval_congs)

lemma graceful_flags:
  "shutdown (snd (run env_graceful))" "\<not> fault (snd (run env_graceful))"
  "pstate (snd (run env_graceful)) = ShuttingDown"
  by (simp_all add: env_graceful_def cfg_example_def run_eval_defs cong: run_eval_congs)

lemma graceful_registry:
  "Handlers (snd (run env_graceful)) 0 = Some \<lparr>Num = 0, Input = 4, Shutdown = 5, Death = 1\<rparr>"
  "Handlers (snd (run env_graceful)) 1 = Some \<lparr>Num = 1, Input = 6, Shutdown = 7, Death = 1\<rparr>"
  by (simp_all add: env_graceful_def cfg_example_def run_eval_defs cong: run_eval_congs)

lemma range_ok_holds: "range_ok e"
  by (simp add: range_ok_def rangeHandlers_def)

lemma graceful_range_ok: "range_ok env_graceful"
  by (rule range_ok_holds)

lemma fault_outcome: "fst (run env_fault) = Exit 1"
  by (simp add: env_fault_def env_graceful_def cfg_example_def run_eval_defs cong: run_eval_congs)

lemma fault_trace:
  "trace (snd (run env_fault)) =
   [DisableZKLogger, SetLogrusOptions, ConfFromFile ''mistral.conf'',
    NewFileWriter ''/var/log'' ''mistral.log'', LogSetOutput,
    LogInfo ''Starting MISTRAL...'', MakeChan 0 1,
    SignalNotify 0 [SIGINT, SIGTERM], MakeChan 1 0,
    NewPrefixedRegistry ''/mistral'', NewRegisteredMeter ''/requests'',
    NewRegisteredMeter ''/messages'', MakeChan 2 0, MakeChan 3 0,
    NewMetricSocket 1, SetDebugFormatter,
    LogInfo ''Launched metrics producer socket'',
    Go (SocketRun \<lparr>ms_Errors = 2, ms_Shutdown = 3\<rparr>),
    MakeChan 4 4, MakeChan 5 0,
    RegisterHandler 0 \<lparr>Num = 0, Input = 4, Shutdown = 5, Death = 1\<rparr>,
    Go (HandlerStart \<lparr>Num = 0, Input = 4, Shutdown = 5, Death = 1\<rparr>),
    LogInfo ''Launched Mistral handler #0'',
    MakeChan 6 4, MakeChan 7 0,
    RegisterHandler 1 \<lparr>Num = 1, Input = 6, Shutdown = 7, Death = 1\<rparr>,
    Go (HandlerStart \<lparr>Num = 1, Input = 6, Shutdown = 7, Death = 1\<rparr>),
    LogInfo ''Launched Mistral handler #1'',
    RouterPOST ''/api'', RouterGET ''/health'', Go (ListenAndServe ''localhost:8080'' 1),
    LogError ''Handler died: address already in use'',
    SetUnavailable,
    Close 3, Close 5, Close 4, Close 7, Close 6,
    TimeAfter 10000000, TimerExpired 10000000,
    TimeAfter 10000000, TimerExpired 10000000,
    SrvShutdown 5000000000, LogInfo ''MISTRAL shutdown complete'']"
  by (simp add: env_fault_def env_graceful_def cfg_example_def run_eval_defs cong: run_eval_congs)

lemma fault_flags:
  "\<not> shutdown (snd (run env_fault))" "fault (snd (run env_fault))"
  "pstate (snd (run env_fault)) = Unavailable"
  by (simp_all add: env_fault_def env_graceful_def cfg_example_def run_eval_defs
      cong: run_eval_congs)

lemma fault_range_ok: "range_ok env_fault"
  by (rule range_ok_holds)

lemma example_startup:
  "\<exists>st. startup env_graceful (init initial_state)
     = Inr (\<lparr>miConf_of = cfg_example, c_of = 0, handlerDeath_of = 1,
              ms_of = \<lparr>ms_Errors = 2, ms_Shutdown = 3\<rparr>\<rparr>, st)"
  by (simp add: env_graceful_def cfg_example_def run_eval_defs cong: run_eval_congs)

lemma runloop_socket_errors:
  "runloop (map (\<lambda>x. Recv (OnErrors x)) errs @ evs) st
     = runloop evs (st\<lparr>trace := trace st @ map (\<lambda>x. LogError (''Socket error: '' @ x)) errs\<rparr>)"
proof (induction errs arbitrary: st)
  case Nil
  show ?case by simp
next
  case (Cons x errs)
  show ?case by (simp add: Cons.IH) (simp add: emit_def)
qed

lemma run_started:
  assumes "\<not> versionFlag e" and "startup e (init initial_state) = Inr (l, st)"
  shows "run e = supervise e l st"
  using assms by (simp add: run_def main_def)

lemma startup_state:
  assumes "startup e (init initial_state) = Inr (l, st)"
  shows "pstate st = Healthy" "waited st = 0"
proof -
  from startup_Inr [OF assms] obtain miConf where
    cf: "fromFile e = Inr miConf" "newFileWriter e = None"
      "(0 \<le> Mistral_HandlerQueueLength miConf
          \<and> Mistral_HandlerQueueLength miConf \<le> int (chanSizeLimit e)) \<or> numCPU e = 0" by auto
  from startup_ok [OF cf, of "init initial_state"] assms
  show "pstate st = Healthy" "waited st = 0" by (auto simp: init_state_facts)
qed

lemma startup_drain_indep: "startup (e\<lparr>drainSelect := as\<rparr>) st = startup e st"
  by (simp add: startup_def read_config_def setup_logfile_def Let_def
      cong: sum.case_cong prod.case_cong)

lemma teardown_drain_indep:
  "fst (teardown (e\<lparr>drainSelect := as\<rparr>) l st) = fst (teardown e l st)
   \<and> pstate (snd (teardown (e\<lparr>drainSelect := as\<rparr>) l st)) = pstate (snd (teardown e l st))
   \<and> fault (snd (teardown (e\<lparr>drainSelect := as\<rparr>) l st)) = fault (snd (teardown e l st))
   \<and> shutdown (snd (teardown (e\<lparr>drainSelect := as\<rparr>) l st)) = shutdown (snd (teardown e l st))
   \<and> filter is_transition (trace (snd (teardown (e\<lparr>drainSelect := as\<rparr>) l st)))
       = filter is_transition (trace (snd (teardown e l st)))"
proof -
  have ca: "close_all (e\<lparr>drainSelect := as\<rparr>) l (grace st) = close_all e l (grace st)"
    by (simp add: close_all_def rangeHandlers_def cong: sum.case_cong)
  have fa: "\<And>f. finish_actions (e\<lparr>drainSelect := as\<rparr>) f = finish_actions e f"
    by (simp add: finish_actions_def)
  have nt: "\<And>xs. filter is_transition (drain_actions xs) = []"
    using drain_actions_facts(2) by (simp add: filter_empty_conv list_all_iff)
  show ?thesis
  proof (cases "close_all e l (grace st)")
    case (Inl halt)
    then show ?thesis by (simp add: teardown_def ca)
  next
    case (Inr st1)
    then show ?thesis
      by (simp add: teardown_def ca finish_outcome finish_frame finish_trace time_After_frame
          drainloop_frame drainloop_trace fa nt)
  qed
qed

lemma run_drain_indep:
  "fst (run (e\<lparr>drainSelect := as\<rparr>)) = fst (run e)
   \<and> pstate (snd (run (e\<lparr>drainSelect := as\<rparr>))) = pstate (snd (run e))
   \<and> fault (snd (run (e\<lparr>drainSelect := as\<rparr>))) = fault (snd (run e))
   \<and> shutdown (snd (run (e\<lparr>drainSelect := as\<rparr>))) = shutdown (snd (run e))
   \<and> filter is_transition (trace (snd (run (e\<lparr>drainSelect := as\<rparr>))))
       = filter is_transition (trace (snd (run e)))"
proof (cases "versionFlag e")
  case True
  then show ?thesis by (simp add: run_def main_def print_version_def)
next
  case nv: False
  show ?thesis
  proof (cases "startup e (init initial_state)")
    case (Inl halt)
    with nv show ?thesis by (simp add: run_def main_def startup_drain_indep)
  next
    case (Inr ok)
    obtain l st where ok: "ok = (l, st)" by (cases ok)
    obtain b st1 where rl: "runloop (runSelect e) (st\<lparr>fault := False, shutdown := False\<rparr>) = (b, st1)"
      by (cases "runloop (runSelect e) (st\<lparr>fault := False, shutdown := False\<rparr>)")
    show ?thesis
    proof (cases b)
      case True
      with nv Inr ok rl teardown_drain_indep [where e = e and as = as and l = l and st = st1] show ?thesis
        by (simp add: run_def main_def startup_drain_indep supervise_def)
    next
      case False
      with nv Inr ok rl show ?thesis
        by (simp add: run_def main_def startup_drain_indep supervise_def)
    qed
  qed
qed

subsection \<open>Handlers started\<close>

lemma started_handlers_append [simp]:
  "started_handlers (xs @ ys) = started_handlers xs @ started_handlers ys"
  by (simp add: started_handlers_def)

lemma started_handlers_Cons [simp]:
  "started_handlers [] = []"
  "started_handlers (a # xs) = started a @ started_handlers xs"
  by (simp_all add: started_handlers_def)

lemma started_launch_actions:
  "started_handlers (concat (map (launch_actions base d q) js)) = map (handler_at base d) js"
  by (induction js) (simp_all add: launch_actions_def)

lemma handler_chans_mem:
  "ch \<in> set (concat (map (\<lambda>h. [Input h, Shutdown h]) (map (handler_at base d) js)))
     \<longleftrightarrow> (\<exists>x\<in>set js. ch = base + 2 * x \<or> ch = base + 2 * x + 1)"
  by (induction js) (auto simp: handler_at_def)

lemma handler_chans_distinct:
  "distinct js \<Longrightarrow>
     distinct (concat (map (\<lambda>h. [Input h, Shutdown h]) (map (handler_at base d) js)))"
proof (induction js)
  case Nil
  show ?case by simp
next
  case (Cons j js)
  have ne: "\<And>x. x \<in> set js \<Longrightarrow>
      base + 2 * j \<noteq> base + 2 * x \<and> base + 2 * j \<noteq> base + 2 * x + 1
      \<and> base + 2 * j + 1 \<noteq> base + 2 * x \<and> base + 2 * j + 1 \<noteq> base + 2 * x + 1"
  proof -
    fix x assume "x \<in> set js"
    with Cons.prems have "x \<noteq> j" by auto
    then show "base + 2 * j \<noteq> base + 2 * x \<and> base + 2 * j \<noteq> base + 2 * x + 1
      \<and> base + 2 * j + 1 \<noteq> base + 2 * x \<and> base + 2 * j + 1 \<noteq> base + 2 * x + 1"
      by presburger
  qed
  have a: "base + 2 * j \<notin> set (concat (map (\<lambda>h. [Input h, Shutdown h]) (map (handler_at base d) js)))"
    unfolding handler_chans_mem using ne by blast
  have b: "base + 2 * j + 1 \<notin> set (concat (map (\<lambda>h. [Input h, Shutdown h]) (map (handler_at base d) js)))"
    unfolding handler_chans_mem using ne by blast
  have c: "distinct (concat (map (\<lambda>h. [Input h, Shutdown h]) (map (handler_at base d) js)))"
    using Cons by simp
  have "concat (map (\<lambda>h. [Input h, Shutdown h]) (map (handler_at base d) (j # js)))
      = (base + 2 * j) # (base + 2 * j + 1)
        # concat (map (\<lambda>h. [Input h, Shutdown h]) (map (handler_at base d) js))"
    by (simp add: handler_at_def)
  with a b c show ?case by simp
qed

lemma runloop_started:
  "started_handlers (trace (snd (runloop evs st))) = started_handlers (trace st)"
  by (induction evs st rule: runloop.induct)
     (simp_all add: mistral_SetShutdown_def mistral_SetUnavailable_def)

lemma teardown_started:
  "started_handlers (trace (snd (teardown e l st))) = started_handlers (trace st)"
proof -
  from teardown_shape [of e l st] obtain cs post where
    c: "list_all is_close cs"
    and t: "trace (snd (teardown e l st)) = trace st @ grace_actions (shutdown st) @ cs @ post"
    and o: "post = [] \<or> post = drain_actions (drainSelect e) @ finish_actions e (fault st)"
    by blast
  from o have "started_handlers post = []"
    by (auto simp: drain_actions_facts finish_actions_facts)
  with t close_list_facts(6) [OF c] show ?thesis
    by (simp add: grace_actions_facts)
qed

lemma supervise_started:
  "started_handlers (trace (snd (supervise e l st))) = started_handlers (trace st)"
proof -
  obtain b st1 where rl: "runloop (runSelect e) (st\<lparr>fault := False, shutdown := False\<rparr>) = (b, st1)"
    by (cases "runloop (runSelect e) (st\<lparr>fault := False, shutdown := False\<rparr>)")
  from runloop_started [of "runSelect e" "st\<lparr>fault := False, shutdown := False\<rparr>"] rl
  have s1: "started_handlers (trace st1) = started_handlers (trace st)" by simp
  show ?thesis
  proof (cases b)
    case True
    with rl s1 show ?thesis by (simp add: supervise_def teardown_started)
  next
    case False
    with rl s1 show ?thesis by (simp add: supervise_def)
  qed
qed

lemma startup_out_of_range:
  assumes "fromFile e = Inr miConf" and "newFileWriter e = None" and "0 < numCPU e"
    and "Mistral_HandlerQueueLength miConf < 0
         \<or> int (chanSizeLimit e) < Mistral_HandlerQueueLength miConf"
  shows "\<exists>st'. startup e st = Inl (Panic ''makechan: size out of range'', st')
    \<and> started_handlers (trace st') = started_handlers (trace st)"
proof -
  define st2 where "st2 = emit (LogInfo ''Starting MISTRAL...'') (emit LogSetOutput
       (emit (NewFileWriter (Log_Path miConf) (Log_File miConf))
          (emit (ConfFromFile (cliConfPath e)) st)))"
  from prepare_ok [of miConf st2] obtain l st3 xs where
    p: "prepare miConf st2 = (l, st3)"
    and t3: "trace st3 = trace st2 @ xs" and sx: "started_handlers xs = []" by blast
  from start_handlers_neg [OF assms(4,3)]
  have "start_handlers (chanSizeLimit e) 0 (numCPU e) miConf (handlerDeath_of l) st3
      = Inl (Panic ''makechan: size out of range'', st3)" .
  with assms(1,2) p
  have "startup e st = Inl (Panic ''makechan: size out of range'', st3)"
    by (simp add: startup_def read_config_def setup_logfile_def st2_def)
  moreover have "started_handlers (trace st3) = started_handlers (trace st)"
    using t3 sx by (simp add: st2_def)
  ultimately show ?thesis by blast
qed

lemma startup_calm:
  assumes "startup e (init initial_state) = Inr (l, st)"
  shows "list_all calm (trace st)"
proof -
  from startup_Inr [OF assms] obtain cfg where
    cf: "fromFile e = Inr cfg" "newFileWriter e = None"
      "(0 \<le> Mistral_HandlerQueueLength cfg
          \<and> Mistral_HandlerQueueLength cfg \<le> int (chanSizeLimit e)) \<or> numCPU e = 0" by auto
  from startup_ok [OF cf, of "init initial_state"] assms obtain xs ys where
    "trace st = trace (init initial_state) @ xs
       @ concat (map (launch_actions (first_handler_chan (main_locals cfg 0))
                      (handlerDeath_of (main_locals cfg 0))
                      (nat (Mistral_HandlerQueueLength cfg))) [0..<numCPU e]) @ ys"
    "list_all calm xs" "list_all calm ys" by (auto simp: init_state_facts)
  then show ?thesis by (simp add: init_state_facts calm_launch_actions)
qed

lemma startup_registry:
  assumes "startup e (init initial_state) = Inr (l, st)"
  shows "\<forall>j<numCPU e. Handlers st j
      = Some (handler_at (first_handler_chan l) (handlerDeath_of l) j)"
proof -
  from startup_Inr [OF assms] obtain cfg where
    cf: "fromFile e = Inr cfg" "newFileWriter e = None"
      "(0 \<le> Mistral_HandlerQueueLength cfg
          \<and> Mistral_HandlerQueueLength cfg \<le> int (chanSizeLimit e)) \<or> numCPU e = 0" by auto
  from startup_ok [OF cf, of "init initial_state"] assms show ?thesis by auto
qed

lemma drain_closes_are_closes: "list_all is_close (drain_closes ms reg js)"
  by (induction js) (auto simp: drain_closes_def handler_closes_def split: option.splits)

subsection \<open>The sender of a fault is not looked at\<close>

lemma runloop_origin_indep:
  "runloop (evs @ Recv (OnDeath who err) # evs') st
     = runloop (evs @ Recv (OnDeath who' err) # evs') st"
proof (induction evs arbitrary: st)
  case Nil
  show ?case by simp
next
  case (Cons ev evs)
  show ?case
  proof (cases ev)
    case (Recv a)
    then show ?thesis using Cons.IH by (cases a) simp_all
  next
    case (Signal s)
    then show ?thesis by simp
  qed
qed

lemma drainloop_origin_indep:
  "drainloop (as @ (gap, OnDeath who err) # as') st
     = drainloop (as @ (gap, OnDeath who' err) # as') st"
proof (induction as arbitrary: st)
  case Nil
  have "drainloop ((gap, OnDeath who err) # as') st = drainloop ((gap, OnDeath who' err) # as') st"
    by (simp add: log_straggler_def)
  then show ?case by simp
next
  case (Cons x as)
  obtain g a where x: "x = (g, a)" by (cases x)
  show ?case using Cons.IH by (simp add: x)
qed

lemma startup_run_indep: "startup (e\<lparr>runSelect := evs\<rparr>) st = startup e st"
  by (simp add: startup_def read_config_def setup_logfile_def Let_def
      cong: sum.case_cong prod.case_cong)

lemma teardown_run_indep: "teardown (e\<lparr>runSelect := evs\<rparr>) l st = teardown e l st"
  by (simp add: teardown_def close_all_def finish_def Let_def rangeHandlers_def
      cong: sum.case_cong prod.case_cong)

lemma run_origin_indep:
  "run (e\<lparr>runSelect := evs @ Recv (OnDeath who err) # evs'\<rparr>)
     = run (e\<lparr>runSelect := evs @ Recv (OnDeath who' err) # evs'\<rparr>)"
proof -
  have "\<And>l st. supervise (e\<lparr>runSelect := evs @ Recv (OnDeath who err) # evs'\<rparr>) l st
      = supervise (e\<lparr>runSelect := evs @ Recv (OnDeath who' err) # evs'\<rparr>) l st"
    by (simp add: supervise_def teardown_run_indep runloop_origin_indep [of evs who err evs' _ who']
        split: prod.splits bool.splits)
  then show ?thesis
    by (simp add: run_def main_def print_version_def startup_run_indep
        split: sum.splits prod.splits)
qed

lemma run_fault_first:
  assumes nv: "\<not> versionFlag e"
    and su: "startup e (init initial_state) = Inr (l, st)"
    and rs: "runSelect e = map (\<lambda>x. Recv (OnErrors x)) errs @ Recv (OnDeath who err) # evs'"
  shows "fault (snd (run e)) \<and> \<not> shutdown (snd (run e))"
proof -
  define st0 where "st0 = st\<lparr>fault := False, shutdown := False\<rparr>"
  define st1 where "st1 = st0\<lparr>trace := trace st0 @ map (\<lambda>x. LogError (''Socket error: '' @ x)) errs\<rparr>"
  have rl: "runloop (runSelect e) st0
      = (True, (mistral_SetUnavailable (emit (LogError (''Handler died: '' @ err)) st1))
                 \<lparr>fault := True\<rparr>)"
    by (simp add: rs runloop_socket_errors st1_def)
  then have r: "run e = teardown e l
      ((mistral_SetUnavailable (emit (LogError (''Handler died: '' @ err)) st1))\<lparr>fault := True\<rparr>)"
    using nv su by (simp add: run_started supervise_def st0_def)
  from teardown_shape [of e l
      "(mistral_SetUnavailable (emit (LogError (''Handler died: '' @ err)) st1))\<lparr>fault := True\<rparr>"]
  show ?thesis
    by (auto simp: r mistral_SetUnavailable_def st1_def st0_def)
qed

lemma drain_closes_no_transition: "filter is_transition (drain_closes ms reg js) = []"
  using close_list_facts(1) [OF drain_closes_are_closes [of ms reg js]]
  by (simp add: filter_empty_conv list_all_iff)

lemma startup_http:
  assumes "startup e st0 = Inr (l, st)"
  shows "Go (ListenAndServe (listenHost (miConf_of l)) (handlerDeath_of l)) \<in> set (trace st)"
proof -
  from startup_Inr [OF assms] obtain cfg where
    cf: "fromFile e = Inr cfg" "newFileWriter e = None" by auto
  define st2 where "st2 = emit (LogInfo ''Starting MISTRAL...'') (emit LogSetOutput
       (emit (NewFileWriter (Log_Path cfg) (Log_File cfg))
          (emit (ConfFromFile (cliConfPath e)) st0)))"
  from prepare_ok [of cfg st2] obtain l' st3 where
    p: "prepare cfg st2 = (l', st3)" and m: "miConf_of l' = cfg" by auto
  from assms cf p have "l = l'
      \<and> (\<exists>st4. st = start_http cfg (handlerDeath_of l') st4)"
    by (auto simp: startup_def read_config_def setup_logfile_def st2_def split: sum.splits)
  with m show ?thesis by (auto simp: start_http_def)
qed

lemma calm_no_transition: "list_all calm xs \<Longrightarrow> filter is_transition xs = []"
  using calm_list_facts(2) by (simp add: filter_empty_conv list_all_iff)

subsection \<open>The version flag\<close>

text \<open>
  Claim C9. When the flag \<open>--version\<close> is given, the process prints the four lines of
  build metadata to standard error and exits with status 0. Beside the two calls of
  \<open>init\<close>, which run before main in every process, these four lines are all it does:
  no configuration is read, no log file is opened, no channel is made, no handler is
  registered, no goroutine is started, and the health flag stays as it was.
\<close>

theorem version_flag_exits_at_once:
  assumes "versionFlag e"
  shows "fst (run e) = Exit 0
    \<and> trace (snd (run e)) =
        [DisableZKLogger, SetLogrusOptions,
         Stderr ''Mistral Metric API'',
         Stderr (''Version  : '' @ builddate e @ ''-'' @ shorthash e),
         Stderr (''Git Hash : '' @ githash e),
         Stderr (''Timestamp: '' @ buildtime e)]
    \<and> next_chan (snd (run e)) = 0
    \<and> Handlers (snd (run e)) = Map.empty
    \<and> pstate (snd (run e)) = Healthy"
  using assms by (simp add: run_def main_def print_version_def init_def initial_state_def)

theorem version_flag_exits_at_once_witness:
  "versionFlag env_version \<and> fst (run env_version) = Exit 0
    \<and> trace (snd (run env_version)) =
        [DisableZKLogger, SetLogrusOptions,
         Stderr ''Mistral Metric API'',
         Stderr ''Version  : 2017-06-01-0a1b'',
         Stderr ''Git Hash : 0a1b2c3d4e'',
         Stderr ''Timestamp: 12:00:00'']"
  using version_flag_exits_at_once [of env_version]
  by (simp add: env_version_def env_graceful_def)

subsection \<open>Exit status\<close>

text \<open>
  Claim C1. A run that reaches the last log line of main ends with status 0 when the
  run loop committed to the graceful path and with status 1 when it committed to the
  fault path. The path is the one whose setter was called. When \<open>range\<close> yields every
  key of the registry once, a run that has committed always reaches that line, so that
  no other status follows a commit.
\<close>

theorem exit_status_by_path:
  "(LogInfo ''MISTRAL shutdown complete'' \<in> set (trace (snd (run e))) \<longrightarrow>
      committed (snd (run e)) = Some GracefulShutdown \<and> fst (run e) = Exit 0
      \<or> committed (snd (run e)) = Some FaultShutdown \<and> fst (run e) = Exit 1)
   \<and> (committed (snd (run e)) = Some GracefulShutdown
        \<longleftrightarrow> SetShutdown \<in> set (trace (snd (run e))))
   \<and> (committed (snd (run e)) = Some FaultShutdown
        \<longleftrightarrow> SetUnavailable \<in> set (trace (snd (run e))))
   \<and> (range_ok e \<and> committed (snd (run e)) \<noteq> None \<longrightarrow>
        LogInfo ''MISTRAL shutdown complete'' \<in> set (trace (snd (run e)))
        \<and> exit_status (fst (run e))
            = Some (if committed (snd (run e)) = Some FaultShutdown then 1 else 0))"
proof -
  from run_shape [of e] obtain pre where cp: "list_all calm pre" and
    sh: "\<not> shutdown (snd (run e)) \<and> \<not> fault (snd (run e))
        \<and> pstate (snd (run e)) = Healthy
        \<and> trace (snd (run e)) = pre
      \<or> (\<exists>cs post. list_all is_close cs
          \<and> shutdown (snd (run e)) \<noteq> fault (snd (run e))
          \<and> pstate (snd (run e))
              = (if shutdown (snd (run e)) then ShuttingDown else Unavailable)
          \<and> trace (snd (run e))
              = pre @ [commit_action (shutdown (snd (run e)))]
                @ grace_actions (shutdown (snd (run e))) @ cs @ post
          \<and> ((\<exists>m. fst (run e) = Panic m) \<and> post = []
             \<or> cs \<noteq> []
               \<and> fst (run e) = (if fault (snd (run e)) then Exit 1 else Exit 0)
               \<and> post = drain_actions (drainSelect e)
                   @ finish_actions e (fault (snd (run e)))))" by blast
  note pf = calm_list_facts [OF cp]
  have first3: "(LogInfo ''MISTRAL shutdown complete'' \<in> set (trace (snd (run e))) \<longrightarrow>
      committed (snd (run e)) = Some GracefulShutdown \<and> fst (run e) = Exit 0
      \<or> committed (snd (run e)) = Some FaultShutdown \<and> fst (run e) = Exit 1)
   \<and> (committed (snd (run e)) = Some GracefulShutdown
        \<longleftrightarrow> SetShutdown \<in> set (trace (snd (run e))))
   \<and> (committed (snd (run e)) = Some FaultShutdown
        \<longleftrightarrow> SetUnavailable \<in> set (trace (snd (run e))))"
    using sh
  proof
    assume "\<not> shutdown (snd (run e)) \<and> \<not> fault (snd (run e))
        \<and> pstate (snd (run e)) = Healthy \<and> trace (snd (run e)) = pre"
    with pf show ?thesis by (simp add: committed_iff)
  next
    assume "\<exists>cs post. list_all is_close cs
          \<and> shutdown (snd (run e)) \<noteq> fault (snd (run e))
          \<and> pstate (snd (run e))
              = (if shutdown (snd (run e)) then ShuttingDown else Unavailable)
          \<and> trace (snd (run e))
              = pre @ [commit_action (shutdown (snd (run e)))]
                @ grace_actions (shutdown (snd (run e))) @ cs @ post
          \<and> ((\<exists>m. fst (run e) = Panic m) \<and> post = []
             \<or> cs \<noteq> []
               \<and> fst (run e) = (if fault (snd (run e)) then Exit 1 else Exit 0)
               \<and> post = drain_actions (drainSelect e)
                   @ finish_actions e (fault (snd (run e))))"
    then obtain cs post where
      cc: "list_all is_close cs"
      and ne: "shutdown (snd (run e)) \<noteq> fault (snd (run e))"
      and t: "trace (snd (run e))
              = pre @ [commit_action (shutdown (snd (run e)))]
                @ grace_actions (shutdown (snd (run e))) @ cs @ post"
      and o: "(\<exists>m. fst (run e) = Panic m) \<and> post = []
             \<or> cs \<noteq> []
               \<and> fst (run e) = (if fault (snd (run e)) then Exit 1 else Exit 0)
               \<and> post = drain_actions (drainSelect e)
                   @ finish_actions e (fault (snd (run e)))" by blast
    note cf = close_list_facts [OF cc]
    from o show ?thesis
    proof
      assume "(\<exists>m. fst (run e) = Panic m) \<and> post = []"
      with t ne pf cf show ?thesis
        by (auto simp: committed_iff grace_actions_facts commit_action_def)
    next
      assume "cs \<noteq> []
               \<and> fst (run e) = (if fault (snd (run e)) then Exit 1 else Exit 0)
               \<and> post = drain_actions (drainSelect e)
                   @ finish_actions e (fault (snd (run e)))"
      with t ne pf cf show ?thesis
        by (auto simp: committed_iff grace_actions_facts commit_action_def
            drain_actions_facts finish_actions_facts)
    qed
  qed
  have last: "range_ok e \<and> committed (snd (run e)) \<noteq> None \<longrightarrow>
        LogInfo ''MISTRAL shutdown complete'' \<in> set (trace (snd (run e)))
        \<and> exit_status (fst (run e))
            = Some (if committed (snd (run e)) = Some FaultShutdown then 1 else 0)"
  proof
    assume a: "range_ok e \<and> committed (snd (run e)) \<noteq> None"
    with committed_run [of e] obtain l st where
      "\<not> versionFlag e" "startup e (init initial_state) = Inr (l, st)"
      "\<exists>ev\<in>set (runSelect e). is_commit_trigger ev" by blast
    from run_ok [OF this(1,2) _ this(3)] a obtain xs where
      "fst (run e) = (if fault (snd (run e)) then Exit 1 else Exit 0)"
      "shutdown (snd (run e)) \<noteq> fault (snd (run e))"
      "trace (snd (run e)) = trace st @ xs @ [commit_action (shutdown (snd (run e)))]
        @ grace_actions (shutdown (snd (run e)))
        @ drain_closes (ms_of l) (Handlers st) (rangeHandlers e)
        @ drain_actions (drainSelect e) @ finish_actions e (fault (snd (run e)))" by blast
    then show "LogInfo ''MISTRAL shutdown complete'' \<in> set (trace (snd (run e)))
        \<and> exit_status (fst (run e))
            = Some (if committed (snd (run e)) = Some FaultShutdown then 1 else 0)"
      by (auto simp: committed_iff finish_actions_facts)
  qed
  from first3 last show ?thesis by blast
qed

theorem exit_status_by_path_witness:
  "LogInfo ''MISTRAL shutdown complete'' \<in> set (trace (snd (run env_graceful)))
   \<and> range_ok env_graceful
   \<and> committed (snd (run env_graceful)) = Some GracefulShutdown
   \<and> SetShutdown \<in> set (trace (snd (run env_graceful)))
   \<and> fst (run env_graceful) = Exit 0
   \<and> exit_status (fst (run env_graceful)) = Some 0
   \<and> LogInfo ''MISTRAL shutdown complete'' \<in> set (trace (snd (run env_fault)))
   \<and> range_ok env_fault
   \<and> committed (snd (run env_fault)) = Some FaultShutdown
   \<and> SetUnavailable \<in> set (trace (snd (run env_fault)))
   \<and> fst (run env_fault) = Exit 1
   \<and> exit_status (fst (run env_fault)) = Some 1"
  using exit_status_by_path [of env_graceful] exit_status_by_path [of env_fault]
    graceful_flags fault_flags graceful_range_ok fault_range_ok
  by (simp add: committed_def graceful_trace fault_trace)

subsection \<open>The grace interval\<close>

text \<open>
  Claim C2. After the commit to the graceful path main waits 95 seconds before the
  first \<open>close\<close>; after the commit to the fault path the first \<open>close\<close> follows the setter
  at once. The 95 second timer occurs in a trace exactly when the graceful path was
  committed.
\<close>

theorem grace_wait_only_on_graceful_path:
  "(committed (snd (run e)) = Some GracefulShutdown \<longrightarrow>
      (\<exists>pre cs post. trace (snd (run e))
          = pre @ [SetShutdown, TimeAfter (second * 95), TimerExpired (second * 95)] @ cs @ post
        \<and> list_all calm pre \<and> list_all is_close cs
        \<and> list_all (\<lambda>a. \<not> is_close a) post \<and> (cs = [] \<longrightarrow> post = [])))
   \<and> (committed (snd (run e)) = Some FaultShutdown \<longrightarrow>
      (\<exists>pre cs post. trace (snd (run e)) = pre @ [SetUnavailable] @ cs @ post
        \<and> list_all calm pre \<and> list_all is_close cs
        \<and> list_all (\<lambda>a. \<not> is_close a) post \<and> (cs = [] \<longrightarrow> post = [])))
   \<and> (TimeAfter (second * 95) \<in> set (trace (snd (run e)))
        \<longleftrightarrow> committed (snd (run e)) = Some GracefulShutdown)"
proof -
  from run_shape [of e] obtain pre where cp: "list_all calm pre" and
    sh: "\<not> shutdown (snd (run e)) \<and> \<not> fault (snd (run e))
        \<and> pstate (snd (run e)) = Healthy
        \<and> trace (snd (run e)) = pre
      \<or> (\<exists>cs post. list_all is_close cs
          \<and> shutdown (snd (run e)) \<noteq> fault (snd (run e))
          \<and> pstate (snd (run e))
              = (if shutdown (snd (run e)) then ShuttingDown else Unavailable)
          \<and> trace (snd (run e))
              = pre @ [commit_action (shutdown (snd (run e)))]
                @ grace_actions (shutdown (snd (run e))) @ cs @ post
          \<and> ((\<exists>m. fst (run e) = Panic m) \<and> post = []
             \<or> cs \<noteq> []
               \<and> fst (run e) = (if fault (snd (run e)) then Exit 1 else Exit 0)
               \<and> post = drain_actions (drainSelect e)
                   @ finish_actions e (fault (snd (run e)))))" by blast
  note pf = calm_list_facts [OF cp]
  from sh show ?thesis
  proof
    assume "\<not> shutdown (snd (run e)) \<and> \<not> fault (snd (run e))
        \<and> pstate (snd (run e)) = Healthy \<and> trace (snd (run e)) = pre"
    with pf show ?thesis by (simp add: committed_iff)
  next
    assume "\<exists>cs post. list_all is_close cs
          \<and> shutdown (snd (run e)) \<noteq> fault (snd (run e))
          \<and> pstate (snd (run e))
              = (if shutdown (snd (run e)) then ShuttingDown else Unavailable)
          \<and> trace (snd (run e))
              = pre @ [commit_action (shutdown (snd (run e)))]
                @ grace_actions (shutdown (snd (run e))) @ cs @ post
          \<and> ((\<exists>m. fst (run e) = Panic m) \<and> post = []
             \<or> cs \<noteq> []
               \<and> fst (run e) = (if fault (snd (run e)) then Exit 1 else Exit 0)
               \<and> post = drain_actions (drainSelect e)
                   @ finish_actions e (fault (snd (run e))))"
    then obtain cs post where
      cc: "list_all is_close cs"
      and ne: "shutdown (snd (run e)) \<noteq> fault (snd (run e))"
      and t: "trace (snd (run e))
              = pre @ [commit_action (shutdown (snd (run e)))]
                @ grace_actions (shutdown (snd (run e))) @ cs @ post"
      and o: "(\<exists>m. fst (run e) = Panic m) \<and> post = []
             \<or> cs \<noteq> []
               \<and> post = drain_actions (drainSelect e)
                   @ finish_actions e (fault (snd (run e)))" by blast
    note cf = close_list_facts [OF cc]
    from o have po: "list_all (\<lambda>a. \<not> is_close a) post" "cs = [] \<longrightarrow> post = []"
      "TimeAfter (second * 95) \<notin> set post"
      by (auto simp: drain_actions_facts finish_actions_facts)
    show ?thesis
    proof (cases "shutdown (snd (run e))")
      case True
      with t have "trace (snd (run e))
          = pre @ [SetShutdown, TimeAfter (second * 95), TimerExpired (second * 95)] @ cs @ post"
        by (simp add: commit_action_def grace_actions_def)
      with cp cc po True show ?thesis
        by (auto simp: committed_iff)
    next
      case False
      with t have tt: "trace (snd (run e)) = pre @ [SetUnavailable] @ cs @ post"
        by (simp add: commit_action_def grace_actions_def)
      then have "TimeAfter (second * 95) \<notin> set (trace (snd (run e)))"
        using pf cf po by simp
      with tt cp cc po False ne show ?thesis
        by (auto simp: committed_iff)
    qed
  qed
qed

theorem grace_wait_only_on_graceful_path_witness:
  "committed (snd (run env_graceful)) = Some GracefulShutdown
   \<and> (\<exists>pre cs post. trace (snd (run env_graceful))
          = pre @ [SetShutdown, TimeAfter (second * 95), TimerExpired (second * 95)] @ cs @ post
        \<and> list_all calm pre \<and> list_all is_close cs
        \<and> list_all (\<lambda>a. \<not> is_close a) post \<and> (cs = [] \<longrightarrow> post = []))
   \<and> TimeAfter (second * 95) \<in> set (trace (snd (run env_graceful)))
   \<and> committed (snd (run env_fault)) = Some FaultShutdown
   \<and> (\<exists>pre cs post. trace (snd (run env_fault)) = pre @ [SetUnavailable] @ cs @ post
        \<and> list_all calm pre \<and> list_all is_close cs
        \<and> list_all (\<lambda>a. \<not> is_close a) post \<and> (cs = [] \<longrightarrow> post = []))
   \<and> TimeAfter (second * 95) \<notin> set (trace (snd (run env_fault)))"
proof -
  have g: "committed (snd (run env_graceful)) = Some GracefulShutdown"
    using graceful_flags by (simp add: committed_def)
  have f: "committed (snd (run env_fault)) = Some FaultShutdown"
    using fault_flags by (simp add: committed_def)
  from grace_wait_only_on_graceful_path [of env_graceful]
    grace_wait_only_on_graceful_path [of env_fault] g f
  show ?thesis by simp
qed

subsection \<open>The health flag is set before anything is torn down\<close>

text \<open>
  Claim C3. In every run, every \<open>close\<close> is preceded in the trace by a call of
  \<open>SetShutdown\<close> or \<open>SetUnavailable\<close>, and a run in which a channel was closed ends with
  the health flag no longer healthy.
\<close>

theorem transition_before_teardown:
  assumes "trace (snd (run e)) = pre @ a # post" and "is_close a"
  shows "(\<exists>b\<in>set pre. is_transition b) \<and> \<not> isHealthy (pstate (snd (run e)))"
proof -
  from run_shape [of e] obtain xs where cp: "list_all calm xs" and
    sh: "\<not> shutdown (snd (run e)) \<and> \<not> fault (snd (run e))
        \<and> pstate (snd (run e)) = Healthy
        \<and> trace (snd (run e)) = xs
      \<or> (\<exists>cs post. list_all is_close cs
          \<and> shutdown (snd (run e)) \<noteq> fault (snd (run e))
          \<and> pstate (snd (run e))
              = (if shutdown (snd (run e)) then ShuttingDown else Unavailable)
          \<and> trace (snd (run e))
              = xs @ [commit_action (shutdown (snd (run e)))]
                @ grace_actions (shutdown (snd (run e))) @ cs @ post
          \<and> ((\<exists>m. fst (run e) = Panic m) \<and> post = []
             \<or> cs \<noteq> []
               \<and> fst (run e) = (if fault (snd (run e)) then Exit 1 else Exit 0)
               \<and> post = drain_actions (drainSelect e)
                   @ finish_actions e (fault (snd (run e)))))" by blast
  have nc: "\<And>x. x \<in> set xs \<Longrightarrow> \<not> is_close x"
    using calm_list_facts(1) [OF cp] by (simp add: list_all_iff)
  from sh show ?thesis
  proof
    assume "\<not> shutdown (snd (run e)) \<and> \<not> fault (snd (run e))
        \<and> pstate (snd (run e)) = Healthy \<and> trace (snd (run e)) = xs"
    with assms have "a \<in> set xs" by simp
    with nc assms(2) show ?thesis by blast
  next
    assume "\<exists>cs post. list_all is_close cs
          \<and> shutdown (snd (run e)) \<noteq> fault (snd (run e))
          \<and> pstate (snd (run e))
              = (if shutdown (snd (run e)) then ShuttingDown else Unavailable)
          \<and> trace (snd (run e))
              = xs @ [commit_action (shutdown (snd (run e)))]
                @ grace_actions (shutdown (snd (run e))) @ cs @ post
          \<and> ((\<exists>m. fst (run e) = Panic m) \<and> post = []
             \<or> cs \<noteq> []
               \<and> fst (run e) = (if fault (snd (run e)) then Exit 1 else Exit 0)
               \<and> post = drain_actions (drainSelect e)
                   @ finish_actions e (fault (snd (run e))))"
    then obtain rest where
      ps: "pstate (snd (run e)) = (if shutdown (snd (run e)) then ShuttingDown else Unavailable)"
      and t: "trace (snd (run e)) = xs @ commit_action (shutdown (snd (run e))) # rest"
      by auto
    from t assms(1) have "pre @ a # post = xs @ commit_action (shutdown (snd (run e))) # rest"
      by simp
    then have "commit_action (shutdown (snd (run e))) \<in> set pre"
      using nc assms(2) commit_action_facts(1) [of "shutdown (snd (run e))"]
      by (auto simp: append_eq_append_conv2 Cons_eq_append_conv append_eq_Cons_conv)
    then have "\<exists>b\<in>set pre. is_transition b"
      using commit_action_facts(2) by blast
    with ps show ?thesis by (simp add: isHealthy_def)
  qed
qed

theorem transition_before_teardown_witness:
  "trace (snd (run env_graceful))
     = take 36 (trace (snd (run env_graceful))) @ Close 3 # drop 37 (trace (snd (run env_graceful)))
   \<and> is_close (Close 3)
   \<and> (\<exists>b\<in>set (take 36 (trace (snd (run env_graceful)))). is_transition b)
   \<and> \<not> isHealthy (pstate (snd (run env_graceful)))"
proof -
  have e: "trace (snd (run env_graceful))
     = take 36 (trace (snd (run env_graceful))) @ Close 3 # drop 37 (trace (snd (run env_graceful)))"
    by (simp add: graceful_trace)
  have c: "is_close (Close 3)" by simp
  from transition_before_teardown [OF e c] e c show ?thesis by blast
qed

subsection \<open>Socket errors in the run loop\<close>

text \<open>
  Claim C4. In the run loop a value from the error channel of the metric socket is
  logged and nothing else: the loop goes on with the next event in a state that differs
  in the trace only. The loop is left exactly when a signal or a value on
  \<open>handlerDeath\<close> is among the events. A run whose events are socket errors only stays
  in the loop, with the health flag healthy and no path committed.
\<close>

theorem socket_errors_are_only_logged:
  "runloop (map (\<lambda>x. Recv (OnErrors x)) errs @ evs) st
     = runloop evs (st\<lparr>trace := trace st @ map (\<lambda>x. LogError (''Socket error: '' @ x)) errs\<rparr>)
   \<and> runloop (map (\<lambda>x. Recv (OnErrors x)) errs) st
     = (False, st\<lparr>trace := trace st @ map (\<lambda>x. LogError (''Socket error: '' @ x)) errs\<rparr>)
   \<and> fst (runloop evs st) = (\<exists>ev\<in>set evs. is_commit_trigger ev)
   \<and> (\<not> versionFlag e \<and> startup e (init initial_state) = Inr (l, st0)
        \<and> runSelect e = map (\<lambda>x. Recv (OnErrors x)) errs \<longrightarrow>
        fst (run e) = Blocked
        \<and> pstate (snd (run e)) = Healthy
        \<and> committed (snd (run e)) = None
        \<and> trace (snd (run e))
            = trace st0 @ map (\<lambda>x. LogError (''Socket error: '' @ x)) errs)"
proof -
  have a: "runloop (map (\<lambda>x. Recv (OnErrors x)) errs @ evs) st
     = runloop evs (st\<lparr>trace := trace st @ map (\<lambda>x. LogError (''Socket error: '' @ x)) errs\<rparr>)"
    by (rule runloop_socket_errors)
  have b: "\<And>s. runloop (map (\<lambda>x. Recv (OnErrors x)) errs) s
     = (False, s\<lparr>trace := trace s @ map (\<lambda>x. LogError (''Socket error: '' @ x)) errs\<rparr>)"
    using runloop_socket_errors [of errs "[]"] by simp
  have c: "fst (runloop evs st) = (\<exists>ev\<in>set evs. is_commit_trigger ev)"
    by (rule runloop_commits_iff)
  have d: "\<not> versionFlag e \<and> startup e (init initial_state) = Inr (l, st0)
        \<and> runSelect e = map (\<lambda>x. Recv (OnErrors x)) errs \<longrightarrow>
        fst (run e) = Blocked
        \<and> pstate (snd (run e)) = Healthy
        \<and> committed (snd (run e)) = None
        \<and> trace (snd (run e))
            = trace st0 @ map (\<lambda>x. LogError (''Socket error: '' @ x)) errs"
  proof
    assume h: "\<not> versionFlag e \<and> startup e (init initial_state) = Inr (l, st0)
        \<and> runSelect e = map (\<lambda>x. Recv (OnErrors x)) errs"
    then have r: "run e = supervise e l st0" by (simp add: run_started)
    from h startup_state(1) [of e l st0] have p: "pstate st0 = Healthy" by simp
    show "fst (run e) = Blocked
        \<and> pstate (snd (run e)) = Healthy
        \<and> committed (snd (run e)) = None
        \<and> trace (snd (run e))
            = trace st0 @ map (\<lambda>x. LogError (''Socket error: '' @ x)) errs"
      using h p by (simp add: r supervise_def b committed_def)
  qed
  from a b c d show ?thesis by blast
qed

theorem socket_errors_are_only_logged_witness:
  "(\<exists>ev\<in>set [Recv (OnErrors ''write timeout''), Signal SIGTERM]. is_commit_trigger ev)
   \<and> fst (runloop [Recv (OnErrors ''write timeout''), Signal SIGTERM] initial_state)
   \<and> \<not> (\<exists>ev\<in>set [Recv (OnErrors ''write timeout'')]. is_commit_trigger ev)
   \<and> \<not> fst (runloop [Recv (OnErrors ''write timeout'')] initial_state)
   \<and> \<not> versionFlag (env_graceful\<lparr>runSelect := map (\<lambda>x. Recv (OnErrors x)) [''write timeout'']\<rparr>)
   \<and> (\<exists>l st0. startup (env_graceful\<lparr>runSelect := map (\<lambda>x. Recv (OnErrors x)) [''write timeout'']\<rparr>)
         (init initial_state) = Inr (l, st0))
   \<and> fst (run (env_graceful\<lparr>runSelect := map (\<lambda>x. Recv (OnErrors x)) [''write timeout'']\<rparr>))
       = Blocked
   \<and> pstate (snd (run (env_graceful\<lparr>runSelect := map (\<lambda>x. Recv (OnErrors x)) [''write timeout'']\<rparr>)))
       = Healthy"
proof -
  define e where "e = env_graceful\<lparr>runSelect := map (\<lambda>x. Recv (OnErrors x)) [''write timeout'']\<rparr>"
  have nv: "\<not> versionFlag e" by (simp add: e_def env_graceful_def)
  have rs: "runSelect e = map (\<lambda>x. Recv (OnErrors x)) [''write timeout'']" by (simp add: e_def)
  obtain l st0 where su: "startup e (init initial_state) = Inr (l, st0)"
  proof -
    have "\<exists>l st0. startup e (init initial_state) = Inr (l, st0)"
      by (simp add: e_def env_graceful_def cfg_example_def run_eval_defs cong: run_eval_congs)
    then show ?thesis using that by blast
  qed
  from socket_errors_are_only_logged
    [of "[''write timeout'']" "[]" initial_state e l st0] nv rs su
  have r: "fst (run e) = Blocked" "pstate (snd (run e)) = Healthy" by simp_all
  from socket_errors_are_only_logged
    [of "[]" "[Recv (OnErrors ''write timeout''), Signal SIGTERM]" initial_state e l st0]
  have t1: "fst (runloop [Recv (OnErrors ''write timeout''), Signal SIGTERM] initial_state)"
    by simp
  from socket_errors_are_only_logged
    [of "[]" "[Recv (OnErrors ''write timeout'')]" initial_state e l st0]
  have t2: "\<not> fst (runloop [Recv (OnErrors ''write timeout'')] initial_state)"
    by simp
  show ?thesis
    unfolding e_def [symmetric] using nv su r t1 t2 by auto
qed

subsection \<open>Stragglers in the drain loop\<close>

text \<open>
  Claim C5. A value that arrives on \<open>handlerDeath\<close> or on the error channel of the metric
  socket during the drain loop is logged and nothing else: the loop leaves the health
  flag, the two locals, the channels and the registry as they are, and adds only timers
  and error lines to the trace. Whatever arrives during the drain loop, the run ends
  with the same exit status, the same health flag, the same committed path and the same
  calls of the setters.
\<close>

theorem stragglers_are_only_logged:
  "pstate (drainloop as st) = pstate st
   \<and> fault (drainloop as st) = fault st
   \<and> shutdown (drainloop as st) = shutdown st
   \<and> heap (drainloop as st) = heap st
   \<and> Handlers (drainloop as st) = Handlers st
   \<and> trace (drainloop as st) = trace st @ drain_actions as
   \<and> filter is_transition (drain_actions as) = []
   \<and> fst (run (e\<lparr>drainSelect := as\<rparr>)) = fst (run e)
   \<and> pstate (snd (run (e\<lparr>drainSelect := as\<rparr>))) = pstate (snd (run e))
   \<and> committed (snd (run (e\<lparr>drainSelect := as\<rparr>))) = committed (snd (run e))
   \<and> filter is_transition (trace (snd (run (e\<lparr>drainSelect := as\<rparr>))))
       = filter is_transition (trace (snd (run e)))"
proof -
  have nt: "filter is_transition (drain_actions as) = []"
    using drain_actions_facts(2) by (simp add: filter_empty_conv list_all_iff)
  from run_drain_indep [where e = e and as = as] drainloop_frame [of as st]
    drainloop_trace [of as st] nt
  show ?thesis by (simp add: committed_def)
qed

subsection \<open>How long the drain loop lasts\<close>

text \<open>
  Claim C10. Every iteration of the drain loop makes a new timer of 10 milliseconds.
  The loop receives the stragglers that arrive before the timer of their iteration
  expires and ends with the first timer that expires; the time it takes is the sum of
  the gaps of the stragglers received plus 10 milliseconds. Stragglers that keep
  arriving less than 10 milliseconds apart make it last longer than any given bound.
\<close>

theorem drain_loop_ends_after_quiet_interval:
  "trace (drainloop as st)
     = trace st
       @ concat (map (\<lambda>(gap, a). [TimeAfter (millisecond * 10), straggler_line a]) (received as))
       @ [TimeAfter (millisecond * 10), TimerExpired (millisecond * 10)]
   \<and> waited (drainloop as st)
       = waited st + sum_list (map fst (received as)) + millisecond * 10
   \<and> (gap < millisecond * 10 \<longrightarrow>
        waited (drainloop (replicate n (gap, a)) st) = waited st + n * gap + millisecond * 10)
   \<and> (\<forall>B. \<exists>as. B < waited (drainloop as st) - waited st)"
proof -
  have r: "\<And>g n a. g < millisecond * 10 \<Longrightarrow> received (replicate n (g, a)) = replicate n (g, a)"
    by (simp add: received_def takeWhile_eq_all_conv)
  have w: "\<And>g n a. g < millisecond * 10 \<Longrightarrow>
      waited (drainloop (replicate n (g, a)) st) = waited st + n * g + millisecond * 10"
    by (simp add: drainloop_waited r sum_list_replicate)
  have u: "\<forall>B. \<exists>as. B < waited (drainloop as st) - waited st"
  proof
    fix B
    have "(1::nat) < millisecond * 10" by (simp add: millisecond_def)
    from w [OF this, of "Suc B" "OnErrors []"]
    have "B < waited (drainloop (replicate (Suc B) (1, OnErrors [])) st) - waited st" by simp
    then show "\<exists>as. B < waited (drainloop as st) - waited st" ..
  qed
  from w u show ?thesis
    by (simp add: drainloop_trace drain_actions_def drainloop_waited)
qed

theorem drain_loop_ends_after_quiet_interval_witness:
  "(9000000::nat) < millisecond * 10
   \<and> waited (drainloop (replicate 3 (9000000, OnDeath (FromHandler 0) ''stopped'')) initial_state)
       = 37000000"
  using drain_loop_ends_after_quiet_interval
    [of "[]" initial_state 9000000 3 "OnDeath (FromHandler 0) ''stopped''"]
  by (simp add: millisecond_def initial_state_def)

subsection \<open>The handler pool\<close>

text \<open>
  Claim C7. When startup succeeds, main has started one handler for each of the
  \<open>runtime.NumCPU()\<close> indices, in ascending order and each once. Handler \<open>j\<close> is in the
  registry under key \<open>j\<close>; its input channel has the configured capacity, its shutdown
  channel is unbuffered, both are open and are channels of no other handler and of no
  other part of main; the death channel of every handler is the one channel
  \<open>handlerDeath\<close>. Nothing that follows startup starts a handler again. Startup succeeds
  whenever the configuration is read, the log file opens and the configured queue
  length is a size that \<open>make\<close> accepts: not negative and not above the limit of the
  runtime. With a queue length that \<open>make\<close> refuses, and at least one core, the run ends
  in the panic of \<open>make\<close> at line 118 and has started no handler.
\<close>

theorem one_handler_per_core:
  "(startup e (init initial_state) = Inr (l, st) \<longrightarrow>
      started_handlers (trace st)
        = map (handler_at (first_handler_chan l) (handlerDeath_of l)) [0..<numCPU e]
      \<and> length (started_handlers (trace st)) = numCPU e
      \<and> (\<forall>j<numCPU e.
            Handlers st j = Some (handler_at (first_handler_chan l) (handlerDeath_of l) j)
          \<and> heap st (Input (handler_at (first_handler_chan l) (handlerDeath_of l) j))
              = Some \<lparr>cap = nat (Mistral_HandlerQueueLength (miConf_of l)), closed = False\<rparr>
          \<and> heap st (Shutdown (handler_at (first_handler_chan l) (handlerDeath_of l) j))
              = Some \<lparr>cap = 0, closed = False\<rparr>)
      \<and> distinct (concat (map (\<lambda>h. [Input h, Shutdown h]) (started_handlers (trace st))))
      \<and> (\<forall>h\<in>set (started_handlers (trace st)).
            Death h = handlerDeath_of l
          \<and> {Input h, Shutdown h}
              \<inter> {c_of l, handlerDeath_of l, ms_Errors (ms_of l), ms_Shutdown (ms_of l)} = {})
      \<and> (\<not> versionFlag e \<longrightarrow>
            started_handlers (trace (snd (run e))) = started_handlers (trace st)))
   \<and> (fromFile e = Inr miConf \<and> newFileWriter e = None
        \<and> 0 \<le> Mistral_HandlerQueueLength miConf
        \<and> Mistral_HandlerQueueLength miConf \<le> int (chanSizeLimit e) \<longrightarrow>
        (\<exists>l st. startup e (init initial_state) = Inr (l, st)))
   \<and> (\<not> versionFlag e \<and> fromFile e = Inr miConf \<and> newFileWriter e = None
        \<and> 0 < numCPU e
        \<and> (Mistral_HandlerQueueLength miConf < 0
             \<or> int (chanSizeLimit e) < Mistral_HandlerQueueLength miConf) \<longrightarrow>
        fst (run e) = Panic ''makechan: size out of range''
        \<and> started_handlers (trace (snd (run e))) = [])"
proof -
  have third: "\<not> versionFlag e \<and> fromFile e = Inr miConf \<and> newFileWriter e = None
        \<and> 0 < numCPU e
        \<and> (Mistral_HandlerQueueLength miConf < 0
             \<or> int (chanSizeLimit e) < Mistral_HandlerQueueLength miConf) \<longrightarrow>
        fst (run e) = Panic ''makechan: size out of range''
        \<and> started_handlers (trace (snd (run e))) = []"
  proof
    assume a: "\<not> versionFlag e \<and> fromFile e = Inr miConf \<and> newFileWriter e = None
        \<and> 0 < numCPU e
        \<and> (Mistral_HandlerQueueLength miConf < 0
             \<or> int (chanSizeLimit e) < Mistral_HandlerQueueLength miConf)"
    then have "fromFile e = Inr miConf" "newFileWriter e = None" "0 < numCPU e"
      "Mistral_HandlerQueueLength miConf < 0
         \<or> int (chanSizeLimit e) < Mistral_HandlerQueueLength miConf" by simp_all
    from startup_out_of_range [OF this, of "init initial_state"] obtain st' where
      "startup e (init initial_state) = Inl (Panic ''makechan: size out of range'', st')"
      "started_handlers (trace st') = started_handlers (trace (init initial_state))" by blast
    with a show "fst (run e) = Panic ''makechan: size out of range''
        \<and> started_handlers (trace (snd (run e))) = []"
      by (simp add: run_def main_def init_state_facts)
  qed
  have second: "fromFile e = Inr miConf \<and> newFileWriter e = None
        \<and> 0 \<le> Mistral_HandlerQueueLength miConf
        \<and> Mistral_HandlerQueueLength miConf \<le> int (chanSizeLimit e) \<longrightarrow>
        (\<exists>l st. startup e (init initial_state) = Inr (l, st))"
  proof
    assume "fromFile e = Inr miConf \<and> newFileWriter e = None
        \<and> 0 \<le> Mistral_HandlerQueueLength miConf
        \<and> Mistral_HandlerQueueLength miConf \<le> int (chanSizeLimit e)"
    then have "fromFile e = Inr miConf" "newFileWriter e = None"
      "(0 \<le> Mistral_HandlerQueueLength miConf
          \<and> Mistral_HandlerQueueLength miConf \<le> int (chanSizeLimit e)) \<or> numCPU e = 0" by simp_all
    from startup_ok [OF this, of "init initial_state"]
    show "\<exists>l st. startup e (init initial_state) = Inr (l, st)" by blast
  qed
  have first: "startup e (init initial_state) = Inr (l, st) \<longrightarrow>
      started_handlers (trace st)
        = map (handler_at (first_handler_chan l) (handlerDeath_of l)) [0..<numCPU e]
      \<and> length (started_handlers (trace st)) = numCPU e
      \<and> (\<forall>j<numCPU e.
            Handlers st j = Some (handler_at (first_handler_chan l) (handlerDeath_of l) j)
          \<and> heap st (Input (handler_at (first_handler_chan l) (handlerDeath_of l) j))
              = Some \<lparr>cap = nat (Mistral_HandlerQueueLength (miConf_of l)), closed = False\<rparr>
          \<and> heap st (Shutdown (handler_at (first_handler_chan l) (handlerDeath_of l) j))
              = Some \<lparr>cap = 0, closed = False\<rparr>)
      \<and> distinct (concat (map (\<lambda>h. [Input h, Shutdown h]) (started_handlers (trace st))))
      \<and> (\<forall>h\<in>set (started_handlers (trace st)).
            Death h = handlerDeath_of l
          \<and> {Input h, Shutdown h}
              \<inter> {c_of l, handlerDeath_of l, ms_Errors (ms_of l), ms_Shutdown (ms_of l)} = {})
      \<and> (\<not> versionFlag e \<longrightarrow>
            started_handlers (trace (snd (run e))) = started_handlers (trace st))"
  proof
    assume su: "startup e (init initial_state) = Inr (l, st)"
    from startup_Inr [OF su] obtain cfg where
      cf: "fromFile e = Inr cfg" "newFileWriter e = None"
        "(0 \<le> Mistral_HandlerQueueLength cfg
          \<and> Mistral_HandlerQueueLength cfg \<le> int (chanSizeLimit e)) \<or> numCPU e = 0" by auto
    define B where "B = first_handler_chan l"
    define d where "d = handlerDeath_of l"
    from startup_ok [OF cf, of "init initial_state"] su obtain xs ys where
      l: "l = main_locals cfg 0"
      and t: "trace st = [DisableZKLogger, SetLogrusOptions] @ xs
           @ concat (map (launch_actions B d (nat (Mistral_HandlerQueueLength cfg))) [0..<numCPU e])
           @ ys"
      and sx: "started_handlers xs = []" "started_handlers ys = []"
      and hh: "\<forall>j. j < numCPU e \<longrightarrow>
          heap st (B + 2 * j) = Some \<lparr>cap = nat (Mistral_HandlerQueueLength cfg), closed = False\<rparr>
        \<and> heap st (B + 2 * j + 1) = Some \<lparr>cap = 0, closed = False\<rparr>"
      and rg: "\<forall>j. Handlers st j = (if j < numCPU e then Some (handler_at B d j) else None)"
      by (auto simp: init_state_facts B_def d_def)
    have s: "started_handlers (trace st) = map (handler_at B d) [0..<numCPU e]"
      using t sx by (simp add: started_launch_actions)
    have a2: "length (started_handlers (trace st)) = numCPU e" by (simp add: s)
    have a3: "\<forall>j<numCPU e.
            Handlers st j = Some (handler_at B d j)
          \<and> heap st (Input (handler_at B d j))
              = Some \<lparr>cap = nat (Mistral_HandlerQueueLength (miConf_of l)), closed = False\<rparr>
          \<and> heap st (Shutdown (handler_at B d j)) = Some \<lparr>cap = 0, closed = False\<rparr>"
      using hh rg by (simp add: handler_at_def l main_locals_def)
    have a4: "distinct (concat (map (\<lambda>h. [Input h, Shutdown h]) (started_handlers (trace st))))"
      unfolding s by (rule handler_chans_distinct) simp
    have a5: "\<forall>h\<in>set (started_handlers (trace st)).
            Death h = handlerDeath_of l
          \<and> {Input h, Shutdown h}
              \<inter> {c_of l, handlerDeath_of l, ms_Errors (ms_of l), ms_Shutdown (ms_of l)} = {}"
      unfolding s
      by (auto simp: handler_at_def B_def d_def first_handler_chan_def l main_locals_def)
    have a6: "\<not> versionFlag e \<longrightarrow>
        started_handlers (trace (snd (run e))) = started_handlers (trace st)"
      using su by (simp add: run_started supervise_started)
    from s a2 a3 a4 a5 a6
    show "started_handlers (trace st)
        = map (handler_at (first_handler_chan l) (handlerDeath_of l)) [0..<numCPU e]
      \<and> length (started_handlers (trace st)) = numCPU e
      \<and> (\<forall>j<numCPU e.
            Handlers st j = Some (handler_at (first_handler_chan l) (handlerDeath_of l) j)
          \<and> heap st (Input (handler_at (first_handler_chan l) (handlerDeath_of l) j))
              = Some \<lparr>cap = nat (Mistral_HandlerQueueLength (miConf_of l)), closed = False\<rparr>
          \<and> heap st (Shutdown (handler_at (first_handler_chan l) (handlerDeath_of l) j))
              = Some \<lparr>cap = 0, closed = False\<rparr>)
      \<and> distinct (concat (map (\<lambda>h. [Input h, Shutdown h]) (started_handlers (trace st))))
      \<and> (\<forall>h\<in>set (started_handlers (trace st)).
            Death h = handlerDeath_of l
          \<and> {Input h, Shutdown h}
              \<inter> {c_of l, handlerDeath_of l, ms_Errors (ms_of l), ms_Shutdown (ms_of l)} = {})
      \<and> (\<not> versionFlag e \<longrightarrow>
            started_handlers (trace (snd (run e))) = started_handlers (trace st))"
      unfolding B_def d_def by blast
  qed
  from first second third show ?thesis by blast
qed

theorem one_handler_per_core_witness:
  "fromFile env_graceful = Inr cfg_example \<and> newFileWriter env_graceful = None
   \<and> 0 \<le> Mistral_HandlerQueueLength cfg_example
   \<and> Mistral_HandlerQueueLength cfg_example \<le> int (chanSizeLimit env_graceful)
   \<and> \<not> versionFlag env_graceful
   \<and> (1::nat) < numCPU env_graceful
   \<and> (\<exists>l st. startup env_graceful (init initial_state) = Inr (l, st)
        \<and> handlerDeath_of l = 1
        \<and> started_handlers (trace st)
            = [\<lparr>Num = 0, Input = 4, Shutdown = 5, Death = 1\<rparr>,
               \<lparr>Num = 1, Input = 6, Shutdown = 7, Death = 1\<rparr>]
        \<and> Handlers st 1 = Some \<lparr>Num = 1, Input = 6, Shutdown = 7, Death = 1\<rparr>
        \<and> heap st 6 = Some \<lparr>cap = 4, closed = False\<rparr>
        \<and> started_handlers (trace (snd (run env_graceful))) = started_handlers (trace st))
   \<and> \<not> versionFlag env_oversized
   \<and> fromFile env_oversized = Inr cfg_oversized \<and> newFileWriter env_oversized = None
   \<and> 0 < numCPU env_oversized
   \<and> int (chanSizeLimit env_oversized) < Mistral_HandlerQueueLength cfg_oversized
   \<and> fst (run env_oversized) = Panic ''makechan: size out of range''
   \<and> started_handlers (trace (snd (run env_oversized))) = []"
proof -
  define l where "l = \<lparr>miConf_of = cfg_example, c_of = 0, handlerDeath_of = 1,
              ms_of = \<lparr>ms_Errors = 2, ms_Shutdown = 3\<rparr>\<rparr>"
  from example_startup obtain st where
    su: "startup env_graceful (init initial_state) = Inr (l, st)"
    unfolding l_def by blast
  have n: "numCPU env_graceful = 2" "\<not> versionFlag env_graceful"
    "fromFile env_graceful = Inr cfg_example" "newFileWriter env_graceful = None"
    by (simp_all add: env_graceful_def)
  have q: "Mistral_HandlerQueueLength cfg_example = 4" by (simp add: cfg_example_def)
  have ql: "Mistral_HandlerQueueLength cfg_example \<le> int (chanSizeLimit env_graceful)"
    by (simp add: cfg_example_def env_graceful_def)
  from one_handler_per_core [of env_graceful l st cfg_example] su n
  have a: "started_handlers (trace st)
      = map (handler_at (first_handler_chan l) (handlerDeath_of l)) [0..<2]"
    and b: "\<forall>j<2. Handlers st j = Some (handler_at (first_handler_chan l) (handlerDeath_of l) j)
          \<and> heap st (Input (handler_at (first_handler_chan l) (handlerDeath_of l) j))
              = Some \<lparr>cap = nat (Mistral_HandlerQueueLength (miConf_of l)), closed = False\<rparr>"
    and c: "started_handlers (trace (snd (run env_graceful))) = started_handlers (trace st)"
    by simp_all
  from a have a': "started_handlers (trace st)
            = [\<lparr>Num = 0, Input = 4, Shutdown = 5, Death = 1\<rparr>,
               \<lparr>Num = 1, Input = 6, Shutdown = 7, Death = 1\<rparr>]"
    by (simp add: upt_two l_def first_handler_chan_def handler_at_def)
  from b [rule_format, of 1] q
  have b': "Handlers st 1 = Some \<lparr>Num = 1, Input = 6, Shutdown = 7, Death = 1\<rparr>"
    "heap st 6 = Some \<lparr>cap = 4, closed = False\<rparr>"
    by (simp_all add: l_def first_handler_chan_def handler_at_def)
  have o: "\<not> versionFlag env_oversized" "fromFile env_oversized = Inr cfg_oversized"
    "newFileWriter env_oversized = None" "0 < numCPU env_oversized"
    "int (chanSizeLimit env_oversized) < Mistral_HandlerQueueLength cfg_oversized"
    by (simp_all add: env_oversized_def env_graceful_def cfg_oversized_def)
  from one_handler_per_core [of env_oversized l st cfg_oversized] o
  have p: "fst (run env_oversized) = Panic ''makechan: size out of range''"
    "started_handlers (trace (snd (run env_oversized))) = []"
    by simp_all
  from su n q ql a' b' c o p show ?thesis by (auto simp: l_def)
qed

subsection \<open>The order of the close calls\<close>

text \<open>
  Claim C6. When startup has succeeded and the run loop is left, the \<open>close\<close> calls of
  the run are these, in this order: the shutdown channel of the metric socket, then for
  every handler in ascending order of its index \<open>0..N-1\<close> its shutdown channel and then
  its input channel. No channel is closed before them, and the drain loop and all that
  follows it come after them and close nothing.
\<close>

theorem channels_closed_in_index_order:
  assumes "\<not> versionFlag e"
    and "startup e (init initial_state) = Inr (l, st)"
    and "\<exists>ev\<in>set (runSelect e). is_commit_trigger ev"
  shows "\<exists>pre post.
      trace (snd (run e))
        = pre @ drain_closes (ms_of l) (Handlers st) [0..<numCPU e]
          @ drain_actions (drainSelect e) @ post
      \<and> list_all (\<lambda>a. \<not> is_close a) pre
      \<and> list_all (\<lambda>a. \<not> is_close a) (drain_actions (drainSelect e) @ post)
      \<and> filter is_close (trace (snd (run e)))
          = drain_closes (ms_of l) (Handlers st) [0..<numCPU e]
      \<and> (\<forall>j<numCPU e. \<exists>h. Handlers st j = Some h \<and> Num h = j
            \<and> handler_closes (Handlers st) j = [Close (Shutdown h), Close (Input h)])
      \<and> Handlers (snd (run e)) = Handlers st"
proof -
  from run_ok [OF assms(1,2) range_ok_holds assms(3)] obtain xs where
    cx: "list_all calm xs"
    and t: "trace (snd (run e)) = trace st @ xs @ [commit_action (shutdown (snd (run e)))]
        @ grace_actions (shutdown (snd (run e)))
        @ drain_closes (ms_of l) (Handlers st) [0..<numCPU e]
        @ drain_actions (drainSelect e) @ finish_actions e (fault (snd (run e)))"
    and r: "Handlers (snd (run e)) = Handlers st"
    unfolding rangeHandlers_def by blast
  define pre where "pre = trace st @ xs @ [commit_action (shutdown (snd (run e)))]
        @ grace_actions (shutdown (snd (run e)))"
  have p: "list_all (\<lambda>a. \<not> is_close a) pre"
    using calm_list_facts(1) [OF startup_calm [OF assms(2)]] calm_list_facts(1) [OF cx]
    by (simp add: pre_def commit_action_facts grace_actions_facts)
  have q: "list_all (\<lambda>a. \<not> is_close a)
      (drain_actions (drainSelect e) @ finish_actions e (fault (snd (run e))))"
    by (simp add: drain_actions_facts finish_actions_facts)
  have fp: "filter is_close pre = []"
    using p by (simp add: filter_empty_conv list_all_iff)
  have fq: "filter is_close
      (drain_actions (drainSelect e) @ finish_actions e (fault (snd (run e)))) = []"
    using q by (simp only: filter_empty_conv list_all_iff)
  have fc: "filter is_close (drain_closes (ms_of l) (Handlers st) [0..<numCPU e])
      = drain_closes (ms_of l) (Handlers st) [0..<numCPU e]"
    using drain_closes_are_closes [of "ms_of l" "Handlers st" "[0..<numCPU e]"]
    by (simp add: filter_id_conv list_all_iff)
  have tt: "trace (snd (run e)) = pre @ drain_closes (ms_of l) (Handlers st) [0..<numCPU e]
      @ (drain_actions (drainSelect e) @ finish_actions e (fault (snd (run e))))"
    using t by (simp add: pre_def)
  have f: "filter is_close (trace (snd (run e)))
      = drain_closes (ms_of l) (Handlers st) [0..<numCPU e]"
    using fq by (simp add: tt fp fc)
  have h: "\<forall>j<numCPU e. \<exists>h. Handlers st j = Some h \<and> Num h = j
      \<and> handler_closes (Handlers st) j = [Close (Shutdown h), Close (Input h)]"
    using startup_registry [OF assms(2)] by (simp add: handler_at_def handler_closes_def)
  from tt p q f h r show ?thesis
    by (intro exI [of _ pre] exI [of _ "finish_actions e (fault (snd (run e)))"]) simp
qed

theorem channels_closed_in_index_order_witness:
  "\<not> versionFlag env_graceful
   \<and> (\<exists>ev\<in>set (runSelect env_graceful). is_commit_trigger ev)
   \<and> (\<exists>l st. startup env_graceful (init initial_state) = Inr (l, st)
        \<and> drain_closes (ms_of l) (Handlers st) [0..<numCPU env_graceful]
            = [Close 3, Close 5, Close 4, Close 7, Close 6]
        \<and> filter is_close (trace (snd (run env_graceful)))
            = [Close 3, Close 5, Close 4, Close 7, Close 6]
        \<and> (\<exists>pre post.
              trace (snd (run env_graceful))
                = pre @ [Close 3, Close 5, Close 4, Close 7, Close 6]
                  @ drain_actions (drainSelect env_graceful) @ post
              \<and> list_all (\<lambda>a. \<not> is_close a) pre
              \<and> list_all (\<lambda>a. \<not> is_close a) (drain_actions (drainSelect env_graceful) @ post)))"
proof -
  define l where "l = \<lparr>miConf_of = cfg_example, c_of = 0, handlerDeath_of = 1,
              ms_of = \<lparr>ms_Errors = 2, ms_Shutdown = 3\<rparr>\<rparr>"
  from example_startup obtain st where
    su: "startup env_graceful (init initial_state) = Inr (l, st)"
    unfolding l_def by blast
  have nv: "\<not> versionFlag env_graceful" by (simp add: env_graceful_def)
  have tr: "\<exists>ev\<in>set (runSelect env_graceful). is_commit_trigger ev"
    by (simp add: env_graceful_def)
  from channels_closed_in_index_order [OF nv su tr]
  obtain pre post where
    t: "trace (snd (run env_graceful))
        = pre @ drain_closes (ms_of l) (Handlers st) [0..<numCPU env_graceful]
          @ drain_actions (drainSelect env_graceful) @ post"
    and p: "list_all (\<lambda>a. \<not> is_close a) pre"
      "list_all (\<lambda>a. \<not> is_close a) (drain_actions (drainSelect env_graceful) @ post)"
    and f: "filter is_close (trace (snd (run env_graceful)))
          = drain_closes (ms_of l) (Handlers st) [0..<numCPU env_graceful]"
    and r: "Handlers (snd (run env_graceful)) = Handlers st" by blast
  have n: "numCPU env_graceful = 2" by (simp add: env_graceful_def)
  have d: "drain_closes (ms_of l) (Handlers st) [0..<numCPU env_graceful]
      = [Close 3, Close 5, Close 4, Close 7, Close 6]"
    using graceful_registry
    by (simp add: r [symmetric] n upt_two drain_closes_def handler_closes_def l_def)
  from t p f show ?thesis
    unfolding d using nv tr su d by blast
qed

subsection \<open>A failure of the HTTP server\<close>

text \<open>
  Claim C8. The goroutine that runs the HTTP server sends the error of
  \<open>ListenAndServe\<close> once, on the channel \<open>handlerDeath\<close> that every handler has too. Main
  treats that value as it treats the value of a handler: a run is the same whichever of
  the two sent it, in the run loop and in the drain loop. When it is the value that the
  run loop receives after socket errors only, main calls \<open>SetUnavailable\<close>, which is its
  one transition of the health flag, commits to the fault path and exits with status 1.
\<close>

theorem http_failure_is_a_fault:
  "http_goroutine d (Some err) = [Send d (OnDeath FromHTTPServer err)]
   \<and> http_goroutine d None = []
   \<and> (startup e (init initial_state) = Inr (l, st) \<longrightarrow>
        Go (ListenAndServe (listenHost (miConf_of l)) (handlerDeath_of l)) \<in> set (trace st))
   \<and> run (e\<lparr>runSelect := evs @ Recv (OnDeath FromHTTPServer err) # evs'\<rparr>)
       = run (e\<lparr>runSelect := evs @ Recv (OnDeath (FromHandler i) err) # evs'\<rparr>)
   \<and> drainloop (as @ (gap, OnDeath FromHTTPServer err) # as') s
       = drainloop (as @ (gap, OnDeath (FromHandler i) err) # as') s
   \<and> (\<not> versionFlag e \<and> startup e (init initial_state) = Inr (l, st) \<and> range_ok e
        \<and> runSelect e = map (\<lambda>x. Recv (OnErrors x)) errs
             @ Recv (OnDeath FromHTTPServer err) # evs' \<longrightarrow>
        fst (run e) = Exit 1
        \<and> pstate (snd (run e)) = Unavailable
        \<and> committed (snd (run e)) = Some FaultShutdown
        \<and> filter is_transition (trace (snd (run e))) = [SetUnavailable])"
proof -
  have a: "http_goroutine d (Some err) = [Send d (OnDeath FromHTTPServer err)]"
    "http_goroutine d None = []"
    by (simp_all add: http_goroutine_def)
  have b: "startup e (init initial_state) = Inr (l, st) \<longrightarrow>
        Go (ListenAndServe (listenHost (miConf_of l)) (handlerDeath_of l)) \<in> set (trace st)"
    using startup_http by blast
  have c: "run (e\<lparr>runSelect := evs @ Recv (OnDeath FromHTTPServer err) # evs'\<rparr>)
       = run (e\<lparr>runSelect := evs @ Recv (OnDeath (FromHandler i) err) # evs'\<rparr>)"
    by (rule run_origin_indep)
  have d: "drainloop (as @ (gap, OnDeath FromHTTPServer err) # as') s
       = drainloop (as @ (gap, OnDeath (FromHandler i) err) # as') s"
    by (rule drainloop_origin_indep)
  have f: "\<not> versionFlag e \<and> startup e (init initial_state) = Inr (l, st) \<and> range_ok e
        \<and> runSelect e = map (\<lambda>x. Recv (OnErrors x)) errs
             @ Recv (OnDeath FromHTTPServer err) # evs' \<longrightarrow>
        fst (run e) = Exit 1
        \<and> pstate (snd (run e)) = Unavailable
        \<and> committed (snd (run e)) = Some FaultShutdown
        \<and> filter is_transition (trace (snd (run e))) = [SetUnavailable]"
  proof
    assume h: "\<not> versionFlag e \<and> startup e (init initial_state) = Inr (l, st) \<and> range_ok e
        \<and> runSelect e = map (\<lambda>x. Recv (OnErrors x)) errs
             @ Recv (OnDeath FromHTTPServer err) # evs'"
    then have nv: "\<not> versionFlag e" and su: "startup e (init initial_state) = Inr (l, st)"
      and ro: "range_ok e"
      and rs: "runSelect e = map (\<lambda>x. Recv (OnErrors x)) errs
             @ Recv (OnDeath FromHTTPServer err) # evs'" by simp_all
    from rs have tr: "\<exists>ev\<in>set (runSelect e). is_commit_trigger ev" by simp
    from run_fault_first [OF nv su rs]
    have fl: "fault (snd (run e))" "\<not> shutdown (snd (run e))" by simp_all
    from run_ok [OF nv su ro tr] fl obtain xs where
      cx: "list_all calm xs"
      and o: "fst (run e) = Exit 1" "pstate (snd (run e)) = Unavailable"
      and t: "trace (snd (run e)) = trace st @ xs @ [commit_action False]
        @ grace_actions False
        @ drain_closes (ms_of l) (Handlers st) (rangeHandlers e)
        @ drain_actions (drainSelect e) @ finish_actions e True" by auto
    have nt: "filter is_transition (drain_actions (drainSelect e)) = []"
      "filter is_transition (finish_actions e True) = []"
      using drain_actions_facts(2) finish_actions_facts(2)
      by (simp_all add: filter_empty_conv list_all_iff)
    have "filter is_transition (trace (snd (run e))) = [SetUnavailable]"
      by (simp add: t calm_no_transition [OF startup_calm [OF su]] calm_no_transition [OF cx]
          drain_closes_no_transition nt commit_action_def grace_actions_def)
    with o fl show "fst (run e) = Exit 1
        \<and> pstate (snd (run e)) = Unavailable
        \<and> committed (snd (run e)) = Some FaultShutdown
        \<and> filter is_transition (trace (snd (run e))) = [SetUnavailable]"
      by (simp add: committed_def)
  qed
  from a b c d f show ?thesis by blast
qed

theorem http_failure_is_a_fault_witness:
  "\<not> versionFlag env_fault \<and> range_ok env_fault
   \<and> runSelect env_fault
       = map (\<lambda>x. Recv (OnErrors x)) [] @ Recv (OnDeath FromHTTPServer ''address already in use'') # []
   \<and> (\<exists>l st. startup env_fault (init initial_state) = Inr (l, st)
         \<and> Go (ListenAndServe ''localhost:8080'' 1) \<in> set (trace st)
         \<and> http_goroutine (handlerDeath_of l) (Some ''address already in use'')
             = [Send 1 (OnDeath FromHTTPServer ''address already in use'')])
   \<and> fst (run env_fault) = Exit 1
   \<and> pstate (snd (run env_fault)) = Unavailable
   \<and> committed (snd (run env_fault)) = Some FaultShutdown
   \<and> filter is_transition (trace (snd (run env_fault))) = [SetUnavailable]"
proof -
  define l where "l = \<lparr>miConf_of = cfg_example, c_of = 0, handlerDeath_of = 1,
              ms_of = \<lparr>ms_Errors = 2, ms_Shutdown = 3\<rparr>\<rparr>"
  have "startup env_fault (init initial_state) = startup env_graceful (init initial_state)"
    by (simp add: env_fault_def startup_def read_config_def setup_logfile_def Let_def
        cong: sum.case_cong prod.case_cong)
  with example_startup obtain st where
    su: "startup env_fault (init initial_state) = Inr (l, st)"
    unfolding l_def by auto
  have nv: "\<not> versionFlag env_fault" by (simp add: env_fault_def env_graceful_def)
  have rs: "runSelect env_fault
       = map (\<lambda>x. Recv (OnErrors x)) [] @ Recv (OnDeath FromHTTPServer ''address already in use'') # []"
    by (simp add: env_fault_def)
  have lh: "listenHost (miConf_of l) = ''localhost:8080''" "handlerDeath_of l = 1"
    by (simp_all add: l_def listenHost_def cfg_example_def)
  from http_failure_is_a_fault
    [of 1 "''address already in use''" env_fault l st "[]" "[]" 0 "[]" 0 "[]" initial_state "[]"]
    nv su rs fault_range_ok lh
  show ?thesis by auto
qed

end
